theory Spec2Isabelle
  imports Main "HOL-Library.AList" "HOL-Library.Multiset"
begin

section \<open>The JUnit entity model of \<^verbatim>\<open>pyEDAA/Reports/Unittesting/JUnit.py\<close>\<close>

text \<open>
  Exceptions are values. The constructors are the exception classes the module raises;
  messages are not modelled. \<open>AttributeError\<close> is what Python raises when an attribute
  is read that no code ever assigned.
\<close>

datatype error =
    ValueError
  | TypeError
  | AttributeError
  | AssertionError
  | UnboundLocalError
  | UnittestException
  | DuplicateTestsuiteException
  | DuplicateTestcaseException

text \<open>
  Modelled from the spec: the enumerations \<open>TestcaseStatus\<close> and \<open>TestsuiteStatus\<close>
  are declared in the package's \<^verbatim>\<open>__init__\<close> module; the spec gives their states as
  Unknown, Passed, Failed, Skipped, Errored, Weak and Unknown, Passed, Failed, Skipped,
  Errored, Empty.
\<close>

datatype TestcaseStatus =
  Tc_Unknown | Tc_Passed | Tc_Failed | Tc_Skipped | Tc_Errored | Tc_Weak

datatype TestsuiteStatus =
  Ts_Unknown | Ts_Passed | Ts_Failed | Ts_Skipped | Ts_Errored | Ts_Empty

text \<open>
  The classes as records, along the inheritance of the source. A duration is a count of
  microseconds, a timestamp its ISO text. \<open>parent\<close> is the weak back-reference: the
  name of the owning node, or \<open>None\<close>. The child dictionaries are association lists
  in insertion order, keyed by the child's name. The annotation dictionary \<open>_dict\<close> of
  \<open>Base\<close> is not touched by any operation below and is left out.
\<close>

record Base =
  name :: string
  duration :: "int option"
  assertionCount :: "int option"
  parent :: "string option"

record Testcase = Base +
  classname :: "string option"
  case_status :: TestcaseStatus

record TestsuiteBase = Base +
  startTime :: "string option"
  suite_status :: TestsuiteStatus
  tests :: int
  skipped :: int
  errored :: int
  failed :: int
  passed :: int

record Testsuite = TestsuiteBase +
  hostname :: "string option"
  testcases :: "(string \<times> Testcase) list"

record TestsuiteSummary = TestsuiteBase +
  testsuites :: "(string \<times> Testsuite) list"

type_synonym TestsuiteAggregateReturnType = "int \<times> int \<times> int \<times> int \<times> int"

subsection \<open>Constructors and insertion\<close>

text \<open>
  \<open>Testcase.__init__\<close>: with a parent, the new case is stored under its name in the
  parent's dictionary before anything else, by plain item assignment. The result is the
  new case and the parent as it is afterwards. (The \<open>isinstance\<close> check of the parent
  and the checks of \<open>name\<close> are on types the records fix.)
\<close>

definition Testcase_init ::
  "string \<Rightarrow> string option \<Rightarrow> int option \<Rightarrow> TestcaseStatus \<Rightarrow> int option \<Rightarrow> Testsuite option
     \<Rightarrow> Testcase \<times> Testsuite option" where
  "Testcase_init nm cn dur st ac par =
     (let self = \<lparr> name = nm, duration = dur, assertionCount = ac,
                    parent = map_option name par, classname = cn, case_status = st \<rparr>
      in (self, map_option (\<lambda>p. p\<lparr> testcases := AList.update nm self (testcases p) \<rparr>) par))"

text \<open>\<open>Testsuite.AddTestcase\<close>: two guards, then the back-reference and the entry.\<close>

definition AddTestcase :: "Testcase \<Rightarrow> Testsuite \<Rightarrow> error + Testsuite" where
  "AddTestcase testcase self =
     (if parent testcase \<noteq> None then Inl ValueError
      else if name testcase \<in> fst ` set (testcases self) then Inl DuplicateTestcaseException
      else Inr (self\<lparr> testcases :=
                  AList.update (name testcase) (testcase\<lparr> parent := Some (name self) \<rparr>)
                    (testcases self) \<rparr>))"

text \<open>
  \<open>AddTestcases\<close> inserts one case after the other. The suite is an object mutated in
  place: when an insertion raises, the cases inserted before it stay. The result is the
  suite as the loop leaves it, and the exception, if one was raised.
\<close>

fun AddTestcases :: "Testcase list \<Rightarrow> Testsuite \<Rightarrow> Testsuite \<times> error option" where
  "AddTestcases [] self = (self, None)"
| "AddTestcases (testcase # rest) self =
     (case AddTestcase testcase self of
        Inl e \<Rightarrow> (self, Some e)
      | Inr self' \<Rightarrow> AddTestcases rest self')"

text \<open>
  \<open>Testsuite.__init__\<close>: with a parent summary the suite is stored under its name by
  item assignment, before anything else; then the iterable of cases is inserted with the
  two guards of \<open>AddTestcase\<close>. The parent's entry is the object itself, so after an
  exception it holds the suite as far as it was built. The result is the new suite or
  the exception, and the parent as it is afterwards.
\<close>

definition Testsuite_init ::
  "string \<Rightarrow> string option \<Rightarrow> string option \<Rightarrow> int option \<Rightarrow> TestsuiteStatus \<Rightarrow> Testcase list
     \<Rightarrow> TestsuiteSummary option \<Rightarrow> (error + Testsuite) \<times> TestsuiteSummary option" where
  "Testsuite_init nm host start dur st cases par =
     (let self = \<lparr> name = nm, duration = dur, assertionCount = None,
                    parent = map_option name par, startTime = start, suite_status = st,
                    tests = 0, skipped = 0, errored = 0, failed = 0, passed = 0,
                    hostname = host, testcases = [] \<rparr>
      in case AddTestcases cases self of
           (self', raised) \<Rightarrow>
             (case raised of None \<Rightarrow> Inr self' | Some e \<Rightarrow> Inl e,
              map_option (\<lambda>p. p\<lparr> testsuites := AList.update nm self' (testsuites p) \<rparr>) par))"

definition AddTestsuite :: "Testsuite \<Rightarrow> TestsuiteSummary \<Rightarrow> error + TestsuiteSummary" where
  "AddTestsuite testsuite self =
     (if parent testsuite \<noteq> None then Inl ValueError
      else if name testsuite \<in> fst ` set (testsuites self) then Inl DuplicateTestsuiteException
      else Inr (self\<lparr> testsuites :=
                  AList.update (name testsuite) (testsuite\<lparr> parent := Some (name self) \<rparr>)
                    (testsuites self) \<rparr>))"

fun AddTestsuites :: "Testsuite list \<Rightarrow> TestsuiteSummary \<Rightarrow> TestsuiteSummary \<times> error option" where
  "AddTestsuites [] self = (self, None)"
| "AddTestsuites (testsuite # rest) self =
     (case AddTestsuite testsuite self of
        Inl e \<Rightarrow> (self, Some e)
      | Inr self' \<Rightarrow> AddTestsuites rest self')"

text \<open>
  \<open>TestsuiteSummary.__init__\<close>: a summary has no parent; the iterable of suites is
  inserted with the two guards of \<open>AddTestsuite\<close>, and an exception leaves no summary.
\<close>

definition TestsuiteSummary_init ::
  "string \<Rightarrow> string option \<Rightarrow> int option \<Rightarrow> TestsuiteStatus \<Rightarrow> Testsuite list
     \<Rightarrow> error + TestsuiteSummary" where
  "TestsuiteSummary_init nm start dur st suites =
     (case AddTestsuites suites
             \<lparr> name = nm, duration = dur, assertionCount = None, parent = None,
               startTime = start, suite_status = st,
               tests = 0, skipped = 0, errored = 0, failed = 0, passed = 0,
               testsuites = [] \<rparr> of
        (self, None) \<Rightarrow> Inr self
      | (self, Some e) \<Rightarrow> Inl e)"

subsection \<open>Aggregation\<close>

text \<open>
  \<open>Testcase.Aggregate\<close> reads \<open>self._failedAssertionCount\<close>. No constructor and no
  method of the module assigns that attribute, so the read raises.
\<close>

definition failedAssertionCount :: "Testcase \<Rightarrow> error + int" where
  "failedAssertionCount self = Inl AttributeError"

text \<open>
  \<open>Testcase.Aggregate\<close>. The \<open>strict\<close> test sits inside the last branch, where the
  status is already Failed; there \<open>status & ~Passed | Failed\<close> is Failed again.
\<close>

definition Testcase_Aggregate :: "bool \<Rightarrow> Testcase \<Rightarrow> error + Testcase" where
  "Testcase_Aggregate strict self =
     (if case_status self = Tc_Unknown then
        (case assertionCount self of
           None \<Rightarrow> Inr (self\<lparr> case_status := Tc_Passed \<rparr>)
         | Some n \<Rightarrow>
             if n = 0 then Inr (self\<lparr> case_status := Tc_Weak \<rparr>)
             else (case failedAssertionCount self of
                     Inl e \<Rightarrow> Inl e
                   | Inr f \<Rightarrow>
                       if f = 0 then Inr (self\<lparr> case_status := Tc_Passed \<rparr>)
                       else if strict then Inr (self\<lparr> case_status := Tc_Failed \<rparr>)
                       else Inr (self\<lparr> case_status := Tc_Failed \<rparr>)))
      else Inr self)"

text \<open>\<open>TestsuiteBase.Aggregate\<close>: the loop over child suites is commented out.\<close>

definition TestsuiteBase_Aggregate :: TestsuiteAggregateReturnType where
  "TestsuiteBase_Aggregate = (0, 0, 0, 0, 0)"

text \<open>
  The dispatch on the status of one case inside the loop of \<open>Testsuite.Aggregate\<close>,
  after \<open>tests += 1\<close>. The two last branches of the source differ in their message only.
\<close>

definition count_status ::
  "TestcaseStatus \<Rightarrow> TestsuiteAggregateReturnType \<Rightarrow> error + TestsuiteAggregateReturnType" where
  "count_status st acc =
     (case acc of (t, s, e, f, p) \<Rightarrow>
        if st = Tc_Unknown then Inl UnittestException
        else if st = Tc_Skipped then Inr (t, s + 1, e, f, p)
        else if st = Tc_Errored then Inr (t, s, e + 1, f, p)
        else if st = Tc_Passed then Inr (t, s, e, f, p + 1)
        else if st = Tc_Failed then Inr (t, s, e, f + 1, p)
        else Inl UnittestException)"

text \<open>
  The loop over \<open>self._testcases.values()\<close>. Cases are objects mutated in place, so
  the cases resolved before an exception stay resolved: the function returns the
  dictionary as it is when the loop ends or raises.
\<close>

fun aggregate_testcases ::
  "bool \<Rightarrow> (string \<times> Testcase) list \<Rightarrow> TestsuiteAggregateReturnType
     \<Rightarrow> (string \<times> Testcase) list \<times> (error + TestsuiteAggregateReturnType)" where
  "aggregate_testcases strict [] acc = ([], Inr acc)"
| "aggregate_testcases strict ((key, testcase) # rest) (t, s, e, f, p) =
     (case Testcase_Aggregate strict testcase of
        Inl ex \<Rightarrow> ((key, testcase) # rest, Inl ex)
      | Inr tc \<Rightarrow>
          (case count_status (case_status tc) (t + 1, s, e, f, p) of
             Inl ex \<Rightarrow> ((key, tc) # rest, Inl ex)
           | Inr acc \<Rightarrow>
               (case aggregate_testcases strict rest acc of
                  (rest', r) \<Rightarrow> ((key, tc) # rest', r))))"

text \<open>The status chain that ends both \<open>Aggregate\<close> methods.\<close>

definition derive_status :: "TestsuiteAggregateReturnType \<Rightarrow> TestsuiteStatus" where
  "derive_status acc =
     (case acc of (t, s, e, f, p) \<Rightarrow>
        if e > 0 then Ts_Errored
        else if f > 0 then Ts_Failed
        else if t = 0 then Ts_Empty
        else if t - s = p then Ts_Passed
        else if t = s then Ts_Skipped
        else Ts_Unknown)"

definition store_counters ::
  "TestsuiteAggregateReturnType \<Rightarrow> ('a TestsuiteBase_scheme) \<Rightarrow> ('a TestsuiteBase_scheme)" where
  "store_counters acc self =
     (case acc of (t, s, e, f, p) \<Rightarrow>
        self\<lparr> tests := t, skipped := s, errored := e, failed := f, passed := p,
              suite_status := derive_status acc \<rparr>)"

definition Testsuite_Aggregate ::
  "bool \<Rightarrow> Testsuite \<Rightarrow> Testsuite \<times> (error + TestsuiteAggregateReturnType)" where
  "Testsuite_Aggregate strict self =
     (case aggregate_testcases strict (testcases self) TestsuiteBase_Aggregate of
        (cases', Inl ex) \<Rightarrow> (self\<lparr> testcases := cases' \<rparr>, Inl ex)
      | (cases', Inr acc) \<Rightarrow> (store_counters acc (self\<lparr> testcases := cases' \<rparr>), Inr acc))"

definition TestsuiteSummary_Aggregate ::
  "TestsuiteSummary \<Rightarrow> TestsuiteSummary \<times> (error + TestsuiteAggregateReturnType)" where
  "TestsuiteSummary_Aggregate self =
     (store_counters TestsuiteBase_Aggregate self, Inr TestsuiteBase_Aggregate)"

subsection \<open>Iteration\<close>

text \<open>
  Modelled from the spec: the flag enumeration \<open>IterationScheme\<close> is declared in the
  package's \<^verbatim>\<open>__init__\<close> module; the spec names its independent flags. A scheme is
  the set of its flags, \<open>a | b in scheme\<close> is inclusion of both, \<open>scheme | a\<close> is
  insertion.
\<close>

datatype IterationFlag =
  IncludeSelf | IncludeTestsuites | IncludeTestcases | Recursive | PreOrder | PostOrder

type_synonym IterationScheme = "IterationFlag set"

text \<open>
  \<open>Testsuite.Iterate\<close> reads \<open>self._testsuites\<close>, an attribute the class does not
  declare and \<open>Testsuite.__init__\<close> does not assign. A suite object is therefore the
  record of its declared fields together with that attribute, \<open>None\<close> while it is
  unset, as on every object the constructor returns.
\<close>

datatype SuiteObject =
  SuiteObject (fields: Testsuite) (attr_testsuites: "(string \<times> SuiteObject) list option")

datatype Node =
    Node_Testcase Testcase
  | Node_Testsuite SuiteObject
  | Node_Summary TestsuiteSummary

text \<open>
  A generator is the list of what it yields, with the exception that ends it, if any.
  The \<open>assert\<close> runs when the generator is first advanced.
\<close>

fun Testsuite_Iterate :: "IterationScheme \<Rightarrow> SuiteObject \<Rightarrow> Node list \<times> error option"
  and Iterate_testsuites ::
    "IterationScheme \<Rightarrow> (string \<times> SuiteObject) list \<Rightarrow> Node list \<times> error option" where
  "Testsuite_Iterate scheme (SuiteObject self ts) =
     (if {PreOrder, PostOrder} \<subseteq> scheme then ([], Some AssertionError)
      else
        let own = (if IncludeTestcases \<in> scheme
                   then map (\<lambda>kv. Node_Testcase (snd kv)) (testcases self) else []);
            me = (if {IncludeSelf, IncludeTestsuites} \<subseteq> scheme
                  then [Node_Testsuite (SuiteObject self ts)] else []);
            pre = (if PreOrder \<in> scheme then me @ own else []);
            post = (if PostOrder \<in> scheme then own @ me else [])
        in case ts of
             None \<Rightarrow> (pre, Some AttributeError)
           | Some children \<Rightarrow>
               (case Iterate_testsuites (scheme \<union> {IncludeSelf}) children of
                  (ys, Some ex) \<Rightarrow> (pre @ ys, Some ex)
                | (ys, None) \<Rightarrow> (pre @ ys @ post, None)))"
| "Iterate_testsuites scheme [] = ([], None)"
| "Iterate_testsuites scheme ((key, child) # rest) =
     (case Testsuite_Iterate scheme child of
        (ys, Some ex) \<Rightarrow> (ys, Some ex)
      | (ys, None) \<Rightarrow>
          (case Iterate_testsuites scheme rest of (zs, r) \<Rightarrow> (ys @ zs, r)))"

text \<open>
  \<open>TestsuiteSummary.Iterate\<close> calls \<open>testsuite.IterateTestsuites\<close> on each child;
  that method is commented out in class \<open>Testsuite\<close>, so the first child ends the
  generator with an \<open>AttributeError\<close>.
\<close>

definition TestsuiteSummary_Iterate ::
  "IterationScheme \<Rightarrow> TestsuiteSummary \<Rightarrow> Node list \<times> error option" where
  "TestsuiteSummary_Iterate scheme self =
     (let pre = (if {IncludeSelf, IncludeTestsuites, PreOrder} \<subseteq> scheme
                 then [Node_Summary self] else []);
          post = (if {IncludeSelf, IncludeTestsuites, PostOrder} \<subseteq> scheme
                  then [Node_Summary self] else [])
      in if testsuites self = [] then (pre @ post, None) else (pre, Some AttributeError))"

text \<open>
  The traversal in the spec's words, for a tree of suites that all have the attribute:
  in pre-order the node (with IncludeSelf and IncludeTestsuites), then its own cases
  (with IncludeTestcases), then what each child suite yields with IncludeSelf forced on;
  in post-order the same three groups in reverse order. \<open>attr_set\<close> says that every
  suite object of a tree has \<open>_testsuites\<close> assigned.
\<close>

fun Iterate_spec :: "IterationScheme \<Rightarrow> SuiteObject \<Rightarrow> Node list"
  and Iterate_spec_list :: "IterationScheme \<Rightarrow> (string \<times> SuiteObject) list \<Rightarrow> Node list" where
  "Iterate_spec scheme (SuiteObject self ts) =
     (let own = (if IncludeTestcases \<in> scheme
                 then map (\<lambda>kv. Node_Testcase (snd kv)) (testcases self) else []);
          me = (if IncludeSelf \<in> scheme \<and> IncludeTestsuites \<in> scheme
                then [Node_Testsuite (SuiteObject self ts)] else []);
          below = (case ts of
                     None \<Rightarrow> []
                   | Some children \<Rightarrow> Iterate_spec_list (insert IncludeSelf scheme) children)
      in if PreOrder \<in> scheme then me @ own @ below else below @ own @ me)"
| "Iterate_spec_list scheme [] = []"
| "Iterate_spec_list scheme ((key, child) # rest) =
     Iterate_spec scheme child @ Iterate_spec_list scheme rest"

fun attr_set :: "SuiteObject \<Rightarrow> bool"
  and attr_set_list :: "(string \<times> SuiteObject) list \<Rightarrow> bool" where
  "attr_set (SuiteObject self ts) =
     (case ts of None \<Rightarrow> False | Some children \<Rightarrow> attr_set_list children)"
| "attr_set_list [] = True"
| "attr_set_list ((key, child) # rest) = (attr_set child \<and> attr_set_list rest)"

subsection \<open>The document\<close>

text \<open>
  An XML tree. Attribute values keep the value that is formatted: \<open>Str n\<close> is
  \<open>str(n)\<close>, \<open>Seconds6 d\<close> is the duration \<open>d\<close> printed in seconds with six
  decimals, \<open>Text s\<close> is a string as it is.
\<close>

datatype attr_value = Text string | Str int | Seconds6 int

datatype xml = Element (tag: string) (attrib: "(string \<times> attr_value) list") (children: "xml list")

datatype JUnitReaderMode = Default | DecoupleTestsuiteHierarchyAndTestcaseClassName

record JUnitDocument = TestsuiteSummary +
  path :: string
  readerMode :: JUnitReaderMode
  xmlDocument :: "xml option"

definition JUnitDocument_init :: "string \<Rightarrow> JUnitReaderMode \<Rightarrow> JUnitDocument" where
  "JUnitDocument_init xmlReportFile mode =
     \<lparr> name = ''Unprocessed JUnit XML file'', duration = None, assertionCount = None,
       parent = None, startTime = None, suite_status = Ts_Unknown,
       tests = 0, skipped = 0, errored = 0, failed = 0, passed = 0,
       testsuites = [], path = xmlReportFile, readerMode = mode, xmlDocument = None \<rparr>"

text \<open>
  \<open>Read\<close> depends on the file system and on the XML parser. Both are inputs: whether
  the path exists, and what parsing does. A syntax error of the document is printed and
  swallowed; one of the schema file reaches the handler before \<open>junitParser\<close> is bound.
\<close>

datatype ParseOutcome =
  Parsed xml | DocumentSyntaxError | SchemaSyntaxError | OtherException

definition Read :: "bool \<Rightarrow> ParseOutcome \<Rightarrow> JUnitDocument \<Rightarrow> error + JUnitDocument" where
  "Read path_exists outcome self =
     (if \<not> path_exists then Inl UnittestException
      else case outcome of
             Parsed junitDocument \<Rightarrow> Inr (self\<lparr> xmlDocument := Some junitDocument \<rparr>)
           | DocumentSyntaxError \<Rightarrow> Inr self
           | SchemaSyntaxError \<Rightarrow> Inl UnboundLocalError
           | OtherException \<Rightarrow> Inl UnittestException)"

definition optional_attr :: "string \<Rightarrow> 'a option \<Rightarrow> ('a \<Rightarrow> attr_value) \<Rightarrow> (string \<times> attr_value) list" where
  "optional_attr key v fmt = (case v of None \<Rightarrow> [] | Some x \<Rightarrow> [(key, fmt x)])"

definition GenerateTestcase :: "Testcase \<Rightarrow> xml" where
  "GenerateTestcase testcase =
     Element ''testcase''
       ([(''name'', Text (name testcase))]
        @ optional_attr ''classname'' (classname testcase) Text
        @ optional_attr ''time'' (duration testcase) Seconds6
        @ optional_attr ''assertions'' (assertionCount testcase) Str)
       (if case_status testcase = Tc_Passed then []
        else if case_status testcase = Tc_Failed then [Element ''failure'' [] []]
        else if case_status testcase = Tc_Skipped then [Element ''skipped'' [] []]
        else [Element ''error'' [] []])"

definition counter_attrs :: "'a TestsuiteBase_scheme \<Rightarrow> (string \<times> attr_value) list" where
  "counter_attrs self =
     [(''name'', Text (name self))]
     @ optional_attr ''timestamp'' (startTime self) Text
     @ optional_attr ''time'' (duration self) Seconds6
     @ [(''tests'', Str (tests self)), (''failures'', Str (failed self)),
        (''errors'', Str (errored self)), (''skipped'', Str (skipped self))]"

definition GenerateTestsuite :: "Testsuite \<Rightarrow> xml" where
  "GenerateTestsuite testsuite =
     Element ''testsuite''
       (counter_attrs testsuite @ optional_attr ''hostname'' (hostname testsuite) Text)
       (map (\<lambda>kv. GenerateTestcase (snd kv)) (testcases testsuite))"

text \<open>\<open>Generate\<close>: the guard is the first statement; \<open>overwrite\<close> is not read.\<close>

definition Generate :: "bool \<Rightarrow> JUnitDocument \<Rightarrow> error + JUnitDocument" where
  "Generate overwrite self =
     (if xmlDocument self \<noteq> None then Inl UnittestException
      else Inr (self\<lparr> xmlDocument :=
                  Some (Element ''testsuites'' (counter_attrs self)
                          (map (\<lambda>kv. GenerateTestsuite (snd kv)) (testsuites self))) \<rparr>))"

text \<open>
  \<open>Write\<close>: the file system maps a path to the tree serialised into the file. Every
  exception is raised before anything is changed, so a failure returns the error alone.
\<close>

definition Write ::
  "string option \<Rightarrow> bool \<Rightarrow> bool \<Rightarrow> (string \<rightharpoonup> xml) \<Rightarrow> JUnitDocument
     \<Rightarrow> error + (JUnitDocument \<times> (string \<rightharpoonup> xml))" where
  "Write path_arg overwrite regenerate fs self =
     (let p = (case path_arg of None \<Rightarrow> path self | Some q \<Rightarrow> q)
      in if \<not> overwrite \<and> fs p \<noteq> None then Inl UnittestException
         else case (if regenerate then Generate True self else Inr self) of
                Inl ex \<Rightarrow> Inl ex
              | Inr doc \<Rightarrow>
                  (case xmlDocument doc of
                     None \<Rightarrow> Inl UnittestException
                   | Some tree \<Rightarrow> Inr (doc, fs(p \<mapsto> tree))))"

section \<open>The GoogleTest dialect of \<^verbatim>\<open>pyEDAA/Reports/Unittesting/JUnit/GoogleTestJUnit.py\<close>\<close>

text \<open>
  Modelled from the spec: the enumeration \<open>TestsuiteKind\<close> is declared in the package's
  \<^verbatim>\<open>__init__\<close> module. The spec names the kinds Logical, Package, Module and Class and
  puts the last three above the Logical boundary; Root and Namespace complete the
  integer enumeration, whose values order the kinds.
\<close>

datatype TestsuiteKind = Root | Logical | Namespace | Package | Module | Class

fun kind_value :: "TestsuiteKind \<Rightarrow> nat" where
  "kind_value Root = 0"
| "kind_value Logical = 1"
| "kind_value Namespace = 2"
| "kind_value Package = 3"
| "kind_value Module = 4"
| "kind_value Class = 5"

text \<open>
  Modelled from the spec: the canonical test suite \<open>ut_Testsuite\<close> is a class of the
  package's \<^verbatim>\<open>__init__\<close> module. It is a \<open>TestsuiteBase\<close> with a kind, a dictionary
  of cases and a dictionary of nested suites. The parent reference of a suite is its
  position in the tree.
\<close>

datatype ut_Testsuite =
  ut_Testsuite (header: TestsuiteBase) (kind: TestsuiteKind)
    (ut_testcases: "(string \<times> Testcase) list") (ut_testsuites: "(string \<times> ut_Testsuite) list")

text \<open>
  Modelled from the spec: the constructor \<open>ut_Testsuite(name, kind, ..., parent)\<close>;
  registering the new suite in its parent is the caller's update of the tree.
\<close>

definition ut_Testsuite_init ::
  "string \<Rightarrow> TestsuiteKind \<Rightarrow> string option \<Rightarrow> int option \<Rightarrow> TestsuiteStatus \<Rightarrow> string option
     \<Rightarrow> ut_Testsuite" where
  "ut_Testsuite_init nm k start dur st par =
     ut_Testsuite
       \<lparr> name = nm, duration = dur, assertionCount = None, parent = par, startTime = start,
         suite_status = st, tests = 0, skipped = 0, errored = 0, failed = 0, passed = 0 \<rparr>
       k [] []"

text \<open>
  Modelled from the spec: \<open>AddTestcase\<close> and \<open>AddTestcases\<close> of the canonical suite,
  with the guards the spec gives to every insertion (they are those of
  \<open>Testsuite.AddTestcase\<close> above).
\<close>

definition ut_AddTestcase :: "Testcase \<Rightarrow> ut_Testsuite \<Rightarrow> error + ut_Testsuite" where
  "ut_AddTestcase testcase self =
     (if parent testcase \<noteq> None then Inl ValueError
      else if name testcase \<in> fst ` set (ut_testcases self) then Inl DuplicateTestcaseException
      else Inr (ut_Testsuite (header self) (kind self)
                  (AList.update (name testcase)
                     (testcase\<lparr> parent := Some (name (header self)) \<rparr>) (ut_testcases self))
                  (ut_testsuites self)))"

fun ut_AddTestcases :: "Testcase list \<Rightarrow> ut_Testsuite \<Rightarrow> error + ut_Testsuite" where
  "ut_AddTestcases [] self = Inr self"
| "ut_AddTestcases (testcase # rest) self =
     (case ut_AddTestcase testcase self of
        Inl e \<Rightarrow> Inl e
      | Inr self' \<Rightarrow> ut_AddTestcases rest self')"

text \<open>
  Modelled from the spec: \<open>IterateTestcases\<close> of the canonical suite with its default
  scheme, pre-order: the suite's own cases, then the cases of each nested suite. A case
  is yielded with the chain of suites that \<open>_parent\<close> leads through, nearest first, as
  names and kinds; \<open>outer\<close> is the chain above the suite the iteration starts at.
\<close>

fun IterateTestcases ::
    "(string \<times> TestsuiteKind) list \<Rightarrow> ut_Testsuite
       \<Rightarrow> ((string \<times> TestsuiteKind) list \<times> Testcase) list"
  and IterateTestcases_list ::
    "(string \<times> TestsuiteKind) list \<Rightarrow> (string \<times> ut_Testsuite) list
       \<Rightarrow> ((string \<times> TestsuiteKind) list \<times> Testcase) list" where
  "IterateTestcases outer (ut_Testsuite h k cases suites) =
     map (\<lambda>kv. ((name h, k) # outer, snd kv)) cases
     @ IterateTestcases_list ((name h, k) # outer) suites"
| "IterateTestcases_list outer [] = []"
| "IterateTestcases_list outer ((key, suite) # rest) =
     IterateTestcases outer suite @ IterateTestcases_list outer rest"

text \<open>
  Modelled from the spec: the grouping node \<open>Testclass\<close> and the dialect's suite are
  classes of the package \<^verbatim>\<open>JUnit\<close>: a testclass is a named dictionary of cases, a
  suite holds a dictionary of testclasses keyed by classname. \<open>Testclass.AddTestcase\<close>
  has the guards of every insertion; \<open>FromTestcase\<close> and \<open>ToTestcase\<close> build a new
  case without parent that carries name, duration, status and assertion count over.
\<close>

record Testclass = Base +
  class_testcases :: "(string \<times> Testcase) list"

record ju_Testsuite = TestsuiteBase +
  ju_hostname :: "string option"
  testclasses :: "(string \<times> Testclass) list"

definition Testclass_init :: "string \<Rightarrow> string option \<Rightarrow> Testclass" where
  "Testclass_init nm par =
     \<lparr> name = nm, duration = None, assertionCount = None, parent = par, class_testcases = [] \<rparr>"

definition Testclass_AddTestcase :: "Testcase \<Rightarrow> Testclass \<Rightarrow> error + Testclass" where
  "Testclass_AddTestcase testcase self =
     (if parent testcase \<noteq> None then Inl ValueError
      else if name testcase \<in> fst ` set (class_testcases self)
      then Inl DuplicateTestcaseException
      else Inr (self\<lparr> class_testcases :=
                  AList.update (name testcase) (testcase\<lparr> parent := Some (name self) \<rparr>)
                    (class_testcases self) \<rparr>))"

definition FromTestcase :: "Testcase \<Rightarrow> Testcase" where
  "FromTestcase tc =
     \<lparr> name = name tc, duration = duration tc, assertionCount = assertionCount tc,
       parent = None, classname = None, case_status = case_status tc \<rparr>"

definition ToTestcase :: "Testcase \<Rightarrow> Testcase" where
  "ToTestcase tc =
     \<lparr> name = name tc, duration = duration tc, assertionCount = assertionCount tc,
       parent = None, classname = None, case_status = case_status tc \<rparr>"

subsection \<open>Flattening: \<open>Testsuite.FromTestsuite\<close>\<close>

text \<open>
  The \<open>while\<close> loop that prefixes the names of the ancestors as long as their kind is
  above Logical, and the classname of a case: the name of its own suite, whatever its
  kind, extended by that loop; a case without parent raises.
\<close>

fun climb :: "string \<Rightarrow> (string \<times> TestsuiteKind) list \<Rightarrow> string" where
  "climb cn [] = cn"
| "climb cn ((n, k) # outer) =
     (if kind_value k > kind_value Logical then climb (n @ ''.'' @ cn) outer else cn)"

fun classname_of :: "(string \<times> TestsuiteKind) list \<Rightarrow> error + string" where
  "classname_of [] = Inl UnittestException"
| "classname_of ((n, k) # outer) = Inr (climb n outer)"

text \<open>
  The body of the \<open>for\<close> loop: find or create the testclass of that name (a new one is
  registered last in the dictionary), and add a copy of the case to it.
\<close>

definition flatten_case ::
  "string \<Rightarrow> (string \<times> TestsuiteKind) list \<times> Testcase \<Rightarrow> (string \<times> Testclass) list
     \<Rightarrow> error + (string \<times> Testclass) list" where
  "flatten_case suite_name item classes =
     (case classname_of (fst item) of
        Inl e \<Rightarrow> Inl e
      | Inr cn \<Rightarrow>
          (let juClass = (case map_of classes cn of
                            Some c \<Rightarrow> c
                          | None \<Rightarrow> Testclass_init cn (Some suite_name))
           in case Testclass_AddTestcase (FromTestcase (snd item)) juClass of
                Inl e \<Rightarrow> Inl e
              | Inr juClass' \<Rightarrow> Inr (AList.update cn juClass' classes)))"

fun flatten_cases ::
  "string \<Rightarrow> ((string \<times> TestsuiteKind) list \<times> Testcase) list \<Rightarrow> (string \<times> Testclass) list
     \<Rightarrow> error + (string \<times> Testclass) list" where
  "flatten_cases suite_name [] classes = Inr classes"
| "flatten_cases suite_name (item # rest) classes =
     (case flatten_case suite_name item classes of
        Inl e \<Rightarrow> Inl e
      | Inr classes' \<Rightarrow> flatten_cases suite_name rest classes')"

definition FromTestsuite ::
  "(string \<times> TestsuiteKind) list \<Rightarrow> ut_Testsuite \<Rightarrow> error + ju_Testsuite" where
  "FromTestsuite outer testsuite =
     (case flatten_cases (name (header testsuite)) (IterateTestcases outer testsuite) [] of
        Inl e \<Rightarrow> Inl e
      | Inr classes \<Rightarrow>
          Inr \<lparr> name = name (header testsuite), duration = duration (header testsuite),
                assertionCount = None, parent = None,
                startTime = startTime (header testsuite),
                suite_status = suite_status (header testsuite),
                tests = tests (header testsuite), skipped = skipped (header testsuite),
                errored = errored (header testsuite), failed = failed (header testsuite),
                passed = passed (header testsuite),
                ju_hostname = None, testclasses = classes \<rparr>)"

subsection \<open>Unflattening: \<open>Testsuite.ToTestsuite\<close>\<close>

text \<open>\<open>str.split(".")\<close>: the pieces between the dots, at least one.\<close>

fun split_dot :: "string \<Rightarrow> string list" where
  "split_dot [] = [[]]"
| "split_dot (c # cs) =
     (if c = CHR ''.'' then [] # split_dot cs
      else (case split_dot cs of
              [] \<Rightarrow> [[c]]
            | w # ws \<Rightarrow> (c # w) # ws))"

text \<open>
  The walk along the classpath and what follows it, as one recursion over the path that
  rebuilds the suites it went through. \<open>self\<close> is the suite the walk stands at and
  \<open>is_root\<close> tells whether that is the suite \<open>testsuite\<close> the method returns. At the
  end of the path the suite is tagged Class and receives the cases. One step before the
  end the suite is the parent of the last one: it is tagged Module unless it is
  \<open>testsuite\<close> itself. A missing child is created with kind Package and registered last.
\<close>

fun descend ::
  "bool \<Rightarrow> string list \<Rightarrow> Testcase list \<Rightarrow> ut_Testsuite \<Rightarrow> error + ut_Testsuite" where
  "descend is_root [] cases self =
     ut_AddTestcases cases
       (ut_Testsuite (header self) Class (ut_testcases self) (ut_testsuites self))"
| "descend is_root (element # rest) cases self =
     (let child = (case map_of (ut_testsuites self) element of
                     Some suite \<Rightarrow> suite
                   | None \<Rightarrow>
                       ut_Testsuite_init element Package None None Ts_Unknown
                         (Some (name (header self))))
      in case descend False rest cases child of
           Inl e \<Rightarrow> Inl e
         | Inr child' \<Rightarrow>
             Inr (ut_Testsuite (header self)
                    (if rest = [] \<and> \<not> is_root then Module else kind self)
                    (ut_testcases self)
                    (AList.update element child' (ut_testsuites self))))"

fun unflatten_classes ::
  "(string \<times> Testclass) list \<Rightarrow> ut_Testsuite \<Rightarrow> error + ut_Testsuite" where
  "unflatten_classes [] testsuite = Inr testsuite"
| "unflatten_classes ((key, testclass) # rest) testsuite =
     (case descend True (split_dot (name testclass))
             (map (\<lambda>kv. ToTestcase (snd kv)) (class_testcases testclass)) testsuite of
        Inl e \<Rightarrow> Inl e
      | Inr testsuite' \<Rightarrow> unflatten_classes rest testsuite')"

definition ToTestsuite :: "ju_Testsuite \<Rightarrow> error + ut_Testsuite" where
  "ToTestsuite self =
     unflatten_classes (testclasses self)
       (ut_Testsuite_init (name self) Logical (startTime self) (duration self)
          (suite_status self) None)"

subsection \<open>Observations on canonical trees\<close>

text \<open>
  What flattening sees of a tree: for every case, in iteration order, its dotted
  classname and its name.
\<close>

definition classnames ::
  "(string \<times> TestsuiteKind) list \<Rightarrow> ut_Testsuite \<Rightarrow> ((error + string) \<times> string) list" where
  "classnames outer testsuite =
     map (\<lambda>item. (classname_of (fst item), name (snd item))) (IterateTestcases outer testsuite)"

text \<open>The suite a path of names leads to, from a suite downwards.\<close>

fun suite_at :: "string list \<Rightarrow> ut_Testsuite \<Rightarrow> ut_Testsuite option" where
  "suite_at [] self = Some self"
| "suite_at (element # rest) self =
     (case map_of (ut_testsuites self) element of
        None \<Rightarrow> None
      | Some suite \<Rightarrow> suite_at rest suite)"

subsection \<open>Notions used in the proofs\<close>

text \<open>Joining with dots, the inverse of \<open>split_dot\<close>.\<close>

fun join_dot :: "string list \<Rightarrow> string" where
  "join_dot [] = []"
| "join_dot [w] = w"
| "join_dot (w # v # ws) = w @ ''.'' @ join_dot (v # ws)"

text \<open>
  The cases below a suite, each with the path of suite names that leads to it, the
  suite's own name first.
\<close>

fun entries :: "ut_Testsuite \<Rightarrow> (string list \<times> string) list"
  and entries_list :: "(string \<times> ut_Testsuite) list \<Rightarrow> (string list \<times> string) list" where
  "entries (ut_Testsuite h k cases suites) =
     map (\<lambda>kv. ([name h], name (snd kv))) cases
     @ map (\<lambda>e. (name h # fst e, snd e)) (entries_list suites)"
| "entries_list [] = []"
| "entries_list ((key, suite) # rest) = entries suite @ entries_list rest"

text \<open>
  The shape of every suite that unflattening creates below the returned one: a kind
  above Logical, and dictionaries keyed by the names of their members.
\<close>

fun below_ok :: "ut_Testsuite \<Rightarrow> bool"
  and children_ok :: "(string \<times> ut_Testsuite) list \<Rightarrow> bool" where
  "below_ok (ut_Testsuite h k cases suites) =
     (kind_value k > kind_value Logical
      \<and> list_all (\<lambda>kv. name (snd kv) = fst kv) cases
      \<and> children_ok suites)"
| "children_ok [] = True"
| "children_ok ((key, suite) # rest) =
     (name (header suite) = key \<and> below_ok suite \<and> children_ok rest)"

text \<open>What unflattening reads of the testclasses: classname and case name.\<close>

definition class_labels :: "(string \<times> Testclass) list \<Rightarrow> (string \<times> string) list" where
  "class_labels classes =
     concat (map (\<lambda>kc. map (\<lambda>kv. (name (snd kc), name (snd kv))) (class_testcases (snd kc)))
               classes)"

text \<open>The shape of the testclass dictionary that flattening builds.\<close>

definition class_ok :: "string \<times> Testclass \<Rightarrow> bool" where
  "class_ok kc =
     (name (snd kc) = fst kc
      \<and> distinct (map fst (class_testcases (snd kc)))
      \<and> list_all (\<lambda>kv. name (snd kv) = fst kv) (class_testcases (snd kc)))"

definition classes_ok :: "(string \<times> Testclass) list \<Rightarrow> bool" where
  "classes_ok classes = (distinct (map fst classes) \<and> list_all class_ok classes)"

section \<open>Example trees\<close>

definition mk_case :: "string \<Rightarrow> TestcaseStatus \<Rightarrow> int option \<Rightarrow> string option \<Rightarrow> Testcase" where
  "mk_case nm st ac par =
     \<lparr> name = nm, duration = None, assertionCount = ac, parent = par,
       classname = Some ''cls'', case_status = st \<rparr>"

definition mk_suite :: "string \<Rightarrow> string option \<Rightarrow> Testcase list \<Rightarrow> Testsuite" where
  "mk_suite nm par cases =
     \<lparr> name = nm, duration = None, assertionCount = None, parent = par,
       startTime = None, suite_status = Ts_Unknown,
       tests = 0, skipped = 0, errored = 0, failed = 0, passed = 0,
       hostname = None, testcases = map (\<lambda>c. (name c, c)) cases \<rparr>"

definition mk_summary :: "string \<Rightarrow> Testsuite list \<Rightarrow> TestsuiteSummary" where
  "mk_summary nm suites =
     \<lparr> name = nm, duration = None, assertionCount = None, parent = None,
       startTime = None, suite_status = Ts_Unknown,
       tests = 0, skipped = 0, errored = 0, failed = 0, passed = 0,
       testsuites = map (\<lambda>s. (name s, s)) suites \<rparr>"

text \<open>The spec's scenario: suite \<open>T\<close> with one failed and one passed case.\<close>

definition suite_T :: Testsuite where
  "suite_T = mk_suite ''T'' (Some ''R'')
     [mk_case ''a'' Tc_Failed None (Some ''T''), mk_case ''b'' Tc_Passed None (Some ''T'')]"

definition summary_R :: TestsuiteSummary where
  "summary_R = mk_summary ''R'' [suite_T]"

definition suite_all_skipped :: Testsuite where
  "suite_all_skipped = mk_suite ''S'' None
     [mk_case ''c'' Tc_Skipped None (Some ''S''), mk_case ''d'' Tc_Skipped None (Some ''S'')]"

text \<open>A case that recorded zero assertions and has no status yet.\<close>

definition case_unasserted :: Testcase where
  "case_unasserted = mk_case ''w'' Tc_Unknown (Some 0) (Some ''W'')"

definition suite_W :: Testsuite where
  "suite_W = mk_suite ''W'' None [case_unasserted]"

text \<open>Canonical trees and dialect suites for the GoogleTest mapping.\<close>

definition ut_case :: "string \<Rightarrow> TestcaseStatus \<Rightarrow> string option \<Rightarrow> Testcase" where
  "ut_case nm st par =
     \<lparr> name = nm, duration = None, assertionCount = None, parent = par,
       classname = None, case_status = st \<rparr>"

definition ut_suite ::
  "string \<Rightarrow> TestsuiteKind \<Rightarrow> string option \<Rightarrow> Testcase list \<Rightarrow> ut_Testsuite list
     \<Rightarrow> ut_Testsuite" where
  "ut_suite nm k par cases suites =
     ut_Testsuite
       \<lparr> name = nm, duration = None, assertionCount = None, parent = par, startTime = None,
         suite_status = Ts_Unknown, tests = 0, skipped = 0, errored = 0, failed = 0,
         passed = 0 \<rparr>
       k (map (\<lambda>c. (name c, c)) cases) (map (\<lambda>s. (name (header s), s)) suites)"

definition mk_class :: "string \<Rightarrow> string option \<Rightarrow> Testcase list \<Rightarrow> Testclass" where
  "mk_class nm par cases =
     \<lparr> name = nm, duration = None, assertionCount = None, parent = par,
       class_testcases = map (\<lambda>c. (name c, c)) cases \<rparr>"

definition mk_ju_suite :: "string \<Rightarrow> Testclass list \<Rightarrow> ju_Testsuite" where
  "mk_ju_suite nm classes =
     \<lparr> name = nm, duration = None, assertionCount = None, parent = None, startTime = None,
       suite_status = Ts_Unknown, tests = 0, skipped = 0, errored = 0, failed = 0, passed = 0,
       ju_hostname = None, testclasses = map (\<lambda>c. (name c, c)) classes \<rparr>"

text \<open>
  The spec's tree: suite \<open>T\<close> with package \<open>pkg\<close>, module \<open>Mod\<close> and the two
  classes \<open>ClassA\<close> and \<open>ClassB\<close>, one case each.
\<close>

definition tree_pkg :: ut_Testsuite where
  "tree_pkg = ut_suite ''T'' Logical None []
     [ut_suite ''pkg'' Package (Some ''T'') []
        [ut_suite ''Mod'' Module (Some ''pkg'') []
           [ut_suite ''ClassA'' Class (Some ''Mod'')
              [ut_case ''t1'' Tc_Passed (Some ''ClassA'')] [],
            ut_suite ''ClassB'' Class (Some ''Mod'')
              [ut_case ''t2'' Tc_Failed (Some ''ClassB'')] []]]]"



text \<open>What flattening makes of \<open>tree_pkg\<close>.\<close>

definition ju_pkg :: ju_Testsuite where
  "ju_pkg = mk_ju_suite ''T''
     [mk_class ''pkg.Mod.ClassA'' (Some ''T'')
        [ut_case ''t1'' Tc_Passed (Some ''pkg.Mod.ClassA'')],
      mk_class ''pkg.Mod.ClassB'' (Some ''T'')
        [ut_case ''t2'' Tc_Failed (Some ''pkg.Mod.ClassB'')]]"

text \<open>
  Two suites that flatten to the same classname: the class \<open>a.b\<close> and the class \<open>b\<close>
  of package \<open>a\<close>, each with a case \<open>c\<close>.
\<close>

definition tree_dup :: ut_Testsuite where
  "tree_dup = ut_suite ''T'' Logical None []
     [ut_suite ''a.b'' Class (Some ''T'') [ut_case ''c'' Tc_Passed (Some ''a.b'')] [],
      ut_suite ''a'' Package (Some ''T'') []
        [ut_suite ''b'' Class (Some ''a'') [ut_case ''c'' Tc_Passed (Some ''b'')] []]]"

section \<open>Aggregation: helper lemmas\<close>

lemma Testcase_Aggregate_resolved:
  "Testcase_Aggregate strict tc = Inr tc' \<Longrightarrow> Testcase_Aggregate strict' tc' = Inr tc'"
  by (auto simp: Testcase_Aggregate_def failedAssertionCount_def split: if_splits option.splits)

lemma aggregate_testcases_sum:
  "aggregate_testcases strict cs (t, s, e, f, p) = (cs', Inr (t', s', e', f', p')) \<Longrightarrow>
   t = s + e + f + p \<Longrightarrow> t' = s' + e' + f' + p'"
proof (induction cs arbitrary: t s e f p cs')
  case Nil
  then show ?case by simp
next
  case (Cons a cs)
  obtain key tc where a: "a = (key, tc)" by (cases a)
  from Cons.prems show ?case
    unfolding a
    by (auto simp: count_status_def split: sum.splits if_splits prod.splits dest!: Cons.IH)
qed

lemma aggregate_testcases_nonneg:
  "aggregate_testcases strict cs (t, s, e, f, p) = (cs', Inr (t', s', e', f', p')) \<Longrightarrow>
   0 \<le> t \<and> 0 \<le> s \<and> 0 \<le> e \<and> 0 \<le> f \<and> 0 \<le> p \<Longrightarrow>
   0 \<le> t' \<and> 0 \<le> s' \<and> 0 \<le> e' \<and> 0 \<le> f' \<and> 0 \<le> p'"
proof (induction cs arbitrary: t s e f p cs')
  case Nil
  then show ?case by simp
next
  case (Cons a cs)
  obtain key tc where a: "a = (key, tc)" by (cases a)
  from Cons.prems show ?case
    unfolding a
    by (auto simp: count_status_def split: sum.splits if_splits prod.splits dest!: Cons.IH)
qed

lemma aggregate_testcases_fixpoint:
  "aggregate_testcases strict (fst (aggregate_testcases strict cs acc)) acc
     = aggregate_testcases strict cs acc"
proof (induction cs arbitrary: acc)
  case Nil
  then show ?case by simp
next
  case (Cons a cs)
  obtain key tc where a: "a = (key, tc)" by (cases a)
  obtain t s e f p where acc: "acc = (t, s, e, f, p)" by (cases acc)
  show ?case
  proof (cases "Testcase_Aggregate strict tc")
    case (Inl ex)
    then show ?thesis by (simp add: a acc)
  next
    case (Inr tc')
    note again = Testcase_Aggregate_resolved[OF Inr, of strict]
    show ?thesis
    proof (cases "count_status (case_status tc') (t + 1, s, e, f, p)")
      case (Inl ex)
      then show ?thesis using Inr again by (simp add: a acc)
    next
      case counted: (Inr acc')
      obtain rest' res where rr: "aggregate_testcases strict cs acc' = (rest', res)"
        by (cases "aggregate_testcases strict cs acc'")
      from Cons.IH[of acc'] rr have "aggregate_testcases strict rest' acc' = (rest', res)"
        by simp
      with counted rr Inr again show ?thesis
        by (simp add: a acc)
    qed
  qed
qed

lemma Testsuite_Aggregate_counters:
  assumes "Testsuite_Aggregate strict self = (self', Inr (t, s, e, f, p))"
  shows "tests self' = t" "skipped self' = s" "errored self' = e" "failed self' = f"
    "passed self' = p" "suite_status self' = derive_status (t, s, e, f, p)"
    "t = s + e + f + p" "0 \<le> t \<and> 0 \<le> s \<and> 0 \<le> e \<and> 0 \<le> f \<and> 0 \<le> p"
proof -
  obtain cs' where loop:
    "aggregate_testcases strict (testcases self) (0, 0, 0, 0, 0) = (cs', Inr (t, s, e, f, p))"
    and self': "self' = store_counters (t, s, e, f, p) (self\<lparr> testcases := cs' \<rparr>)"
    using assms
    by (auto simp: Testsuite_Aggregate_def TestsuiteBase_Aggregate_def
        split: prod.splits sum.splits)
  show "tests self' = t" "skipped self' = s" "errored self' = e" "failed self' = f"
    "passed self' = p" "suite_status self' = derive_status (t, s, e, f, p)"
    by (simp_all add: self' store_counters_def)
  show "t = s + e + f + p"
    using aggregate_testcases_sum[OF loop] by simp
  show "0 \<le> t \<and> 0 \<le> s \<and> 0 \<le> e \<and> 0 \<le> f \<and> 0 \<le> p"
    using aggregate_testcases_nonneg[OF loop] by simp
qed

lemma TestsuiteSummary_Aggregate_counters:
  assumes "TestsuiteSummary_Aggregate self = (self', r)"
  shows "r = Inr (0, 0, 0, 0, 0)" "tests self' = 0" "skipped self' = 0" "errored self' = 0"
    "failed self' = 0" "passed self' = 0" "suite_status self' = Ts_Empty"
    "testsuites self' = testsuites self"
  using assms
  by (auto simp: TestsuiteSummary_Aggregate_def TestsuiteBase_Aggregate_def store_counters_def
      derive_status_def)

lemma suite_T_aggregate:
  "snd (Testsuite_Aggregate strict suite_T) = Inr (2, 0, 0, 1, 1)"
  by (simp add: Testsuite_Aggregate_def suite_T_def mk_suite_def mk_case_def
      Testcase_Aggregate_def count_status_def TestsuiteBase_Aggregate_def)

text \<open>
  The branch \<open>elif tests == skipped\<close> of the status chain is never taken: when the loop
  ends, tests is the sum of the other counters, so with no error and no failure
  \<open>tests - skipped == passed\<close> already holds. No completed \<open>Aggregate\<close> of a suite
  stores Skipped or Unknown.
\<close>

lemma Testsuite_Aggregate_never_Skipped:
  assumes "Testsuite_Aggregate strict self = (self', Inr acc)"
  shows "suite_status self' \<noteq> Ts_Skipped" and "suite_status self' \<noteq> Ts_Unknown"
proof -
  obtain t s e f p where acc: "acc = (t, s, e, f, p)" by (cases acc)
  note facts = Testsuite_Aggregate_counters[OF assms[unfolded acc]]
  from facts(7,8) have "\<not> 0 < e \<Longrightarrow> \<not> 0 < f \<Longrightarrow> t - s = p" by linarith
  with facts(6) show "suite_status self' \<noteq> Ts_Skipped" and "suite_status self' \<noteq> Ts_Unknown"
    by (auto simp: derive_status_def)
qed

section \<open>Claims on aggregation\<close>

text \<open>
  C1 (the code departs from the claim). The claim: \<open>Aggregate\<close> on a summary folds in
  the tuples of its child suites, so the returned tuple counts every case below it. The
  code at the summary \<open>R\<close> holding suite \<open>T\<close> with two cases: the suite alone counts
  two tests, the summary returns five zeros, stores status Empty and leaves its suites
  as they were, unaggregated.
\<close>

theorem C1_summary_aggregate_skips_suites:
  "snd (Testsuite_Aggregate True suite_T) = Inr (2, 0, 0, 1, 1)
   \<and> snd (TestsuiteSummary_Aggregate summary_R) = Inr (0, 0, 0, 0, 0)
   \<and> suite_status (fst (TestsuiteSummary_Aggregate summary_R)) = Ts_Empty
   \<and> testsuites (fst (TestsuiteSummary_Aggregate summary_R)) = [(''T'', suite_T)]"
proof -
  have "name suite_T = ''T''"
    by (simp add: suite_T_def mk_suite_def)
  then show ?thesis
    by (simp add: suite_T_aggregate TestsuiteSummary_Aggregate_def TestsuiteBase_Aggregate_def
        store_counters_def derive_status_def summary_R_def mk_summary_def)
qed

text \<open>
  C2 (the code departs from the claim). The claim: the status follows the precedence of
  the counters, and in particular a suite where every test is skipped and none passed
  gets status Skipped. The code at suite \<open>S\<close>, whose two cases are both skipped: the
  tuple is (2, 2, 0, 0, 0) and the stored status is Passed, not Skipped, because
  \<open>tests - skipped == passed\<close> is tested before \<open>tests == skipped\<close>.
\<close>

theorem C2_all_skipped_suite_is_passed:
  "snd (Testsuite_Aggregate True suite_all_skipped) = Inr (2, 2, 0, 0, 0)
   \<and> suite_status (fst (Testsuite_Aggregate True suite_all_skipped)) = Ts_Passed
   \<and> suite_status (fst (Testsuite_Aggregate True suite_all_skipped)) \<noteq> Ts_Skipped"
  by (simp add: Testsuite_Aggregate_def suite_all_skipped_def mk_suite_def mk_case_def
      Testcase_Aggregate_def count_status_def TestsuiteBase_Aggregate_def store_counters_def
      derive_status_def)

text \<open>
  C3 (the code departs from the claim). The claim: under \<open>strict\<close> a case resolved to
  Weak is counted as Failed by the enclosing suite. The code at suite \<open>W\<close>, whose one
  case has no status and an assertion count of zero: the case resolves to Weak and stays
  Weak, and the suite's \<open>Aggregate\<close> raises \<open>UnittestException\<close>, with \<open>strict\<close> and
  without.
\<close>

theorem C3_weak_case_is_rejected:
  "Testcase_Aggregate True case_unasserted = Inr (case_unasserted\<lparr> case_status := Tc_Weak \<rparr>)
   \<and> snd (Testsuite_Aggregate True suite_W) = Inl UnittestException
   \<and> snd (Testsuite_Aggregate False suite_W) = Inl UnittestException"
  by (simp add: Testsuite_Aggregate_def suite_W_def case_unasserted_def mk_suite_def mk_case_def
      Testcase_Aggregate_def count_status_def TestsuiteBase_Aggregate_def)

text \<open>
  C4. Whenever \<open>Aggregate\<close> completes without raising on a suite or on a summary, the
  stored counters satisfy tests = skipped + errored + failed + passed.
\<close>

theorem C4_counters_add_up:
  "(Testsuite_Aggregate strict self = (self', Inr acc) \<longrightarrow>
      tests self' = skipped self' + errored self' + failed self' + passed self')
   \<and> (TestsuiteSummary_Aggregate summary = (summary', Inr acc') \<longrightarrow>
      tests summary' = skipped summary' + errored summary' + failed summary' + passed summary')"
proof (intro conjI impI)
  assume run: "Testsuite_Aggregate strict self = (self', Inr acc)"
  obtain t s e f p where acc: "acc = (t, s, e, f, p)" by (cases acc)
  note facts = Testsuite_Aggregate_counters[OF run[unfolded acc]]
  show "tests self' = skipped self' + errored self' + failed self' + passed self'"
    using facts(1-5,7) by simp
next
  assume run: "TestsuiteSummary_Aggregate summary = (summary', Inr acc')"
  show "tests summary' = skipped summary' + errored summary' + failed summary' + passed summary'"
    using TestsuiteSummary_Aggregate_counters[OF run] by simp
qed

theorem C4_counters_add_up_witness:
  "snd (Testsuite_Aggregate True suite_T) = Inr (2, 0, 0, 1, 1)
   \<and> tests (fst (Testsuite_Aggregate True suite_T)) =
       skipped (fst (Testsuite_Aggregate True suite_T))
       + errored (fst (Testsuite_Aggregate True suite_T))
       + failed (fst (Testsuite_Aggregate True suite_T))
       + passed (fst (Testsuite_Aggregate True suite_T))
   \<and> snd (TestsuiteSummary_Aggregate summary_R) = Inr (0, 0, 0, 0, 0)
   \<and> tests (fst (TestsuiteSummary_Aggregate summary_R)) =
       skipped (fst (TestsuiteSummary_Aggregate summary_R))
       + errored (fst (TestsuiteSummary_Aggregate summary_R))
       + failed (fst (TestsuiteSummary_Aggregate summary_R))
       + passed (fst (TestsuiteSummary_Aggregate summary_R))"
proof -
  have a: "Testsuite_Aggregate True suite_T
             = (fst (Testsuite_Aggregate True suite_T), Inr (2, 0, 0, 1, 1))"
    using suite_T_aggregate[of True] by (simp add: prod_eq_iff)
  have b: "TestsuiteSummary_Aggregate summary_R
             = (fst (TestsuiteSummary_Aggregate summary_R), Inr (0, 0, 0, 0, 0))"
    by (simp add: TestsuiteSummary_Aggregate_def TestsuiteBase_Aggregate_def)
  have "tests (fst (Testsuite_Aggregate True suite_T)) =
          skipped (fst (Testsuite_Aggregate True suite_T))
          + errored (fst (Testsuite_Aggregate True suite_T))
          + failed (fst (Testsuite_Aggregate True suite_T))
          + passed (fst (Testsuite_Aggregate True suite_T))
        \<and> tests (fst (TestsuiteSummary_Aggregate summary_R)) =
          skipped (fst (TestsuiteSummary_Aggregate summary_R))
          + errored (fst (TestsuiteSummary_Aggregate summary_R))
          + failed (fst (TestsuiteSummary_Aggregate summary_R))
          + passed (fst (TestsuiteSummary_Aggregate summary_R))"
    using a b
      C4_counters_add_up[of True suite_T "fst (Testsuite_Aggregate True suite_T)"
        "(2, 0, 0, 1, 1)" summary_R "fst (TestsuiteSummary_Aggregate summary_R)"
        "(0, 0, 0, 0, 0)"]
    by blast
  then show ?thesis
    by (simp add: suite_T_aggregate TestsuiteSummary_Aggregate_def TestsuiteBase_Aggregate_def)
qed

text \<open>
  C5. \<open>Aggregate\<close> is idempotent: run again on the tree the first call left, it gives
  the same result (tuple or exception) and leaves the same tree, so every counter and
  status is what the first call produced; this holds for a suite, for a summary, and for
  the resolution of a single case.
\<close>

theorem C5_aggregate_idempotent:
  "Testsuite_Aggregate strict (fst (Testsuite_Aggregate strict self))
     = Testsuite_Aggregate strict self
   \<and> TestsuiteSummary_Aggregate (fst (TestsuiteSummary_Aggregate summary))
     = TestsuiteSummary_Aggregate summary
   \<and> (Testcase_Aggregate strict testcase = Inr testcase' \<longrightarrow>
        Testcase_Aggregate strict testcase' = Inr testcase')"
proof (intro conjI impI)
  obtain cs' r where loop:
    "aggregate_testcases strict (testcases self) (0, 0, 0, 0, 0) = (cs', r)"
    by (cases "aggregate_testcases strict (testcases self) (0, 0, 0, 0, 0)")
  from aggregate_testcases_fixpoint[of strict "testcases self" "(0, 0, 0, 0, 0)"] loop
  have again: "aggregate_testcases strict cs' (0, 0, 0, 0, 0) = (cs', r)"
    by simp
  show "Testsuite_Aggregate strict (fst (Testsuite_Aggregate strict self))
          = Testsuite_Aggregate strict self"
  proof (cases r)
    case (Inl ex)
    with loop again show ?thesis
      by (simp add: Testsuite_Aggregate_def TestsuiteBase_Aggregate_def)
  next
    case (Inr acc)
    obtain t s e f p where acc: "acc = (t, s, e, f, p)" by (cases acc)
    from Inr loop again show ?thesis
      by (simp add: Testsuite_Aggregate_def TestsuiteBase_Aggregate_def store_counters_def acc)
  qed
next
  show "TestsuiteSummary_Aggregate (fst (TestsuiteSummary_Aggregate summary))
          = TestsuiteSummary_Aggregate summary"
    by (simp add: TestsuiteSummary_Aggregate_def TestsuiteBase_Aggregate_def store_counters_def)
next
  assume "Testcase_Aggregate strict testcase = Inr testcase'"
  then show "Testcase_Aggregate strict testcase' = Inr testcase'"
    by (rule Testcase_Aggregate_resolved)
qed

theorem C5_aggregate_idempotent_witness:
  "Testcase_Aggregate True case_unasserted = Inr (case_unasserted\<lparr> case_status := Tc_Weak \<rparr>)
   \<and> Testcase_Aggregate True (case_unasserted\<lparr> case_status := Tc_Weak \<rparr>)
       = Inr (case_unasserted\<lparr> case_status := Tc_Weak \<rparr>)
   \<and> Testsuite_Aggregate True (fst (Testsuite_Aggregate True suite_T))
       = Testsuite_Aggregate True suite_T
   \<and> snd (Testsuite_Aggregate True (fst (Testsuite_Aggregate True suite_T))) = Inr (2, 0, 0, 1, 1)"
proof -
  have a: "Testcase_Aggregate True case_unasserted
             = Inr (case_unasserted\<lparr> case_status := Tc_Weak \<rparr>)"
    by (simp add: Testcase_Aggregate_def case_unasserted_def mk_case_def)
  from a C5_aggregate_idempotent[of True suite_T summary_R case_unasserted
      "case_unasserted\<lparr> case_status := Tc_Weak \<rparr>"] suite_T_aggregate[of True]
  show ?thesis by simp
qed

section \<open>Claims on iteration, insertion and the document\<close>

text \<open>
  Where every suite object has \<open>_testsuites\<close> assigned and the scheme holds exactly one
  of PreOrder and PostOrder, \<open>Testsuite.Iterate\<close> ends without exception and yields
  the traversal of the spec.
\<close>

lemma Testsuite_Iterate_attr_set:
  "attr_set t \<Longrightarrow> (PreOrder \<in> scheme) \<noteq> (PostOrder \<in> scheme) \<Longrightarrow>
   Testsuite_Iterate scheme t = (Iterate_spec scheme t, None)"
  "attr_set_list ts \<Longrightarrow> (PreOrder \<in> scheme) \<noteq> (PostOrder \<in> scheme) \<Longrightarrow>
   Iterate_testsuites scheme ts = (Iterate_spec_list scheme ts, None)"
proof (induction scheme t and scheme ts rule: Testsuite_Iterate_Iterate_testsuites.induct)
  case (1 scheme self ts)
  from "1.prems"(1) obtain children where ts: "ts = Some children"
    and ch: "attr_set_list children"
    by (cases ts) auto
  from "1.prems"(2) have both: "\<not> {PreOrder, PostOrder} \<subseteq> scheme" by auto
  from "1.prems"(2) have "(PreOrder \<in> scheme \<union> {IncludeSelf}) \<noteq> (PostOrder \<in> scheme \<union> {IncludeSelf})"
    by auto
  from "1.IH"[OF both refl refl refl refl ts ch this] "1.prems"(2) both show ?case
    by (auto simp: ts Let_def)
next
  case (2 scheme)
  then show ?case by simp
next
  case (3 scheme key child rest)
  then show ?case by simp
qed

text \<open>The guards of \<open>AddTestcase\<close> and \<open>AddTestsuite\<close>.\<close>

lemma guarded_insertion:
  "parent testcase \<noteq> None \<Longrightarrow> AddTestcase testcase suite = Inl ValueError"
  "parent testcase = None \<Longrightarrow> name testcase \<in> fst ` set (testcases suite) \<Longrightarrow>
     AddTestcase testcase suite = Inl DuplicateTestcaseException"
  "parent testsuite \<noteq> None \<Longrightarrow> AddTestsuite testsuite summary = Inl ValueError"
  "parent testsuite = None \<Longrightarrow> name testsuite \<in> fst ` set (testsuites summary) \<Longrightarrow>
     AddTestsuite testsuite summary = Inl DuplicateTestsuiteException"
  by (simp_all add: AddTestcase_def AddTestsuite_def)


text \<open>
  C7 (the code departs from the claim). The claim: \<open>Iterate\<close> on a suite yields the
  node, its own cases and the yields of its child suites, in the order the scheme asks
  for. The code at suite \<open>T\<close> as its constructor leaves it: in pre-order the two cases
  are yielded and then reading \<open>_testsuites\<close> raises \<open>AttributeError\<close>; in post-order
  the same read raises before anything is yielded; on the summary \<open>R\<close> the call of
  \<open>IterateTestsuites\<close> on the first child raises after the summary itself.
\<close>

theorem C7_iterate_raises_attribute_error:
  "Testsuite_Iterate {IncludeTestcases, Recursive, PreOrder} (SuiteObject suite_T None)
     = ([Node_Testcase (mk_case ''a'' Tc_Failed None (Some ''T'')),
         Node_Testcase (mk_case ''b'' Tc_Passed None (Some ''T''))], Some AttributeError)
   \<and> Testsuite_Iterate {IncludeTestcases, Recursive, PostOrder} (SuiteObject suite_T None)
     = ([], Some AttributeError)
   \<and> TestsuiteSummary_Iterate {IncludeSelf, IncludeTestsuites, Recursive, PreOrder} summary_R
     = ([Node_Summary summary_R], Some AttributeError)"
  by (simp add: TestsuiteSummary_Iterate_def suite_T_def summary_R_def mk_suite_def
      mk_summary_def)

text \<open>
  C8 (the code departs from the claim). The claim: inserting a child whose name a
  sibling already has fails with the duplicate error on every way of inserting, the
  parent's dictionary unchanged. The code: \<open>AddTestcase\<close> and \<open>AddTestsuite\<close> do
  raise, but the constructors called with \<open>parent=\<close> assign the entry without a check:
  a second case \<open>a\<close> replaces the failed case \<open>a\<close> of suite \<open>T\<close>, and a second suite
  \<open>T\<close> replaces the suite \<open>T\<close> of summary \<open>R\<close> with its two cases, without any
  exception.
\<close>

theorem C8_constructor_replaces_sibling:
  "AddTestcase (mk_case ''a'' Tc_Passed None None) suite_T = Inl DuplicateTestcaseException
   \<and> map_of (testcases suite_T) ''a'' = Some (mk_case ''a'' Tc_Failed None (Some ''T''))
   \<and> Testcase_init ''a'' (Some ''cls'') None Tc_Passed None (Some suite_T)
     = (mk_case ''a'' Tc_Passed None (Some ''T''),
        Some (suite_T\<lparr> testcases := [(''a'', mk_case ''a'' Tc_Passed None (Some ''T'')),
                                      (''b'', mk_case ''b'' Tc_Passed None (Some ''T''))] \<rparr>))
   \<and> AddTestsuite (mk_suite ''T'' None []) summary_R = Inl DuplicateTestsuiteException
   \<and> Testsuite_init ''T'' None None None Ts_Unknown [] (Some summary_R)
     = (Inr (mk_suite ''T'' (Some ''R'') []),
        Some (summary_R\<lparr> testsuites := [(''T'', mk_suite ''T'' (Some ''R'') [])] \<rparr>))"
  by (simp add: AddTestcase_def AddTestsuite_def Testcase_init_def Testsuite_init_def
      suite_T_def summary_R_def mk_suite_def mk_summary_def mk_case_def Let_def)

text \<open>
  C10. On a document whose internal XML tree is populated, \<open>Generate\<close> raises
  \<open>UnittestException\<close> whatever its \<open>overwrite\<close> argument is, and so does \<open>Write\<close>
  with \<open>regenerate=True\<close>, for every path, \<open>overwrite\<close> flag and file system; and a
  \<open>Read\<close> that parsed the file leaves the tree populated, so both hold after it.
\<close>

theorem C10_generate_refuses_populated_document:
  "(xmlDocument self \<noteq> None \<longrightarrow>
      Generate overwrite self = Inl UnittestException
      \<and> Write path_arg overwrite' True fs self = Inl UnittestException)
   \<and> (Read path_exists (Parsed tree) document = Inr self \<longrightarrow>
      xmlDocument self = Some tree
      \<and> Generate overwrite self = Inl UnittestException
      \<and> Write path_arg overwrite' True fs self = Inl UnittestException)"
proof -
  have populated: "Generate overwrite self = Inl UnittestException
      \<and> Write path_arg overwrite' True fs self = Inl UnittestException"
    if "xmlDocument self \<noteq> None"
    using that by (simp add: Generate_def Write_def Let_def)
  have read: "xmlDocument self = Some tree"
    if "Read path_exists (Parsed tree) document = Inr self"
    using that by (auto simp: Read_def split: if_splits)
  from populated read show ?thesis by auto
qed

theorem C10_generate_refuses_populated_document_witness:
  "Read True (Parsed (Element ''testsuites'' [] [])) (JUnitDocument_init ''report.xml'' Default)
     = Inr ((JUnitDocument_init ''report.xml'' Default)
              \<lparr> xmlDocument := Some (Element ''testsuites'' [] []) \<rparr>)
   \<and> Generate False ((JUnitDocument_init ''report.xml'' Default)
              \<lparr> xmlDocument := Some (Element ''testsuites'' [] []) \<rparr>) = Inl UnittestException
   \<and> Write None True True Map.empty ((JUnitDocument_init ''report.xml'' Default)
              \<lparr> xmlDocument := Some (Element ''testsuites'' [] []) \<rparr>) = Inl UnittestException"
proof -
  have a: "Read True (Parsed (Element ''testsuites'' [] []))
             (JUnitDocument_init ''report.xml'' Default)
           = Inr ((JUnitDocument_init ''report.xml'' Default)
                    \<lparr> xmlDocument := Some (Element ''testsuites'' [] []) \<rparr>)"
    by (simp add: Read_def)
  from a C10_generate_refuses_populated_document[of
      "(JUnitDocument_init ''report.xml'' Default)
         \<lparr> xmlDocument := Some (Element ''testsuites'' [] []) \<rparr>"
      False None True Map.empty True "Element ''testsuites'' [] []"
      "JUnitDocument_init ''report.xml'' Default"]
  show ?thesis by blast
qed

section \<open>Unflattening: kinds\<close>

lemma AList_update_absent:
  "k \<notin> fst ` set al \<Longrightarrow> AList.update k v al = al @ [(k, v)]"
  by (induction al) auto


lemma ut_AddTestcase_frame:
  "ut_AddTestcase tc self = Inr self' \<Longrightarrow>
   header self' = header self \<and> kind self' = kind self \<and> ut_testsuites self' = ut_testsuites self
   \<and> ut_testcases self' = ut_testcases self @ [(name tc, tc\<lparr> parent := Some (name (header self)) \<rparr>)]"
  by (auto simp: ut_AddTestcase_def AList_update_absent split: if_splits)

lemma ut_AddTestcases_frame:
  "ut_AddTestcases tcs self = Inr self' \<Longrightarrow>
   header self' = header self \<and> kind self' = kind self \<and> ut_testsuites self' = ut_testsuites self
   \<and> ut_testcases self' =
       ut_testcases self @ map (\<lambda>tc. (name tc, tc\<lparr> parent := Some (name (header self)) \<rparr>)) tcs"
proof (induction tcs arbitrary: self)
  case Nil
  then show ?case by simp
next
  case (Cons tc tcs)
  from Cons.prems obtain mid where mid: "ut_AddTestcase tc self = Inr mid"
    and rest: "ut_AddTestcases tcs mid = Inr self'"
    by (auto split: sum.splits)
  from ut_AddTestcase_frame[OF mid] Cons.IH[OF rest] show ?case by simp
qed

lemma descend_header:
  "descend is_root classpath cases self = Inr self' \<Longrightarrow> header self' = header self"
  by (cases classpath) (auto simp: Let_def split: sum.splits dest: ut_AddTestcases_frame)

lemma descend_root_kind:
  "descend True classpath cases self = Inr self' \<Longrightarrow> classpath \<noteq> [] \<Longrightarrow> kind self' = kind self"
  by (cases classpath) (auto simp: Let_def split: sum.splits)







lemma split_dot_nonempty: "split_dot s \<noteq> []"
  by (induction s) (auto split: list.splits)

lemma unflatten_classes_kind:
  "unflatten_classes classes testsuite = Inr result \<Longrightarrow> kind result = kind testsuite"
proof (induction classes arbitrary: testsuite)
  case Nil
  then show ?case by simp
next
  case (Cons kc classes)
  obtain key c where kc: "kc = (key, c)" by (cases kc)
  from Cons.prems obtain mid where
    mid: "descend True (split_dot (name c))
            (map (\<lambda>kv. ToTestcase (snd kv)) (class_testcases c)) testsuite = Inr mid"
    and rest: "unflatten_classes classes mid = Inr result"
    by (auto simp: kc split: sum.splits)
  from descend_root_kind[OF mid split_dot_nonempty] Cons.IH[OF rest] show ?case by simp
qed

lemma ToTestsuite_kind: "ToTestsuite self = Inr result \<Longrightarrow> kind result = Logical"
  by (auto simp: ToTestsuite_def ut_Testsuite_init_def dest: unflatten_classes_kind)

section \<open>Claims on the GoogleTest mapping\<close>




section \<open>Flattening and unflattening: helper lemmas\<close>

subsection \<open>Dotted names\<close>

lemma join_dot_Cons: "ws \<noteq> [] \<Longrightarrow> join_dot (w # ws) = w @ ''.'' @ join_dot ws"
  by (cases ws) auto

lemma join_dot_Cons_char: "join_dot ((c # w) # ws) = c # join_dot (w # ws)"
  by (cases ws) auto

lemma join_split_dot: "join_dot (split_dot s) = s"
proof (induction s)
  case Nil
  then show ?case by simp
next
  case (Cons c cs)
  obtain w ws where sp: "split_dot cs = w # ws"
    using split_dot_nonempty[of cs] by (cases "split_dot cs") auto
  show ?case
  proof (cases "c = CHR ''.''")
    case True
    then show ?thesis
      using Cons.IH by (simp add: join_dot_Cons split_dot_nonempty)
  next
    case False
    then show ?thesis
      using Cons.IH by (simp add: sp join_dot_Cons_char)
  qed
qed

lemma split_dot_inj: "split_dot a = split_dot b \<Longrightarrow> a = b"
  by (metis join_split_dot)

subsection \<open>Flattening\<close>

lemma class_labels_Nil: "class_labels [] = []"
  by (simp add: class_labels_def)

lemma class_labels_Cons:
  "class_labels (kc # classes) =
     map (\<lambda>kv. (name (snd kc), name (snd kv))) (class_testcases (snd kc)) @ class_labels classes"
  by (simp add: class_labels_def)

lemma class_labels_append:
  "class_labels (xs @ ys) = class_labels xs @ class_labels ys"
  by (simp add: class_labels_def)

lemma class_labels_update_Some:
  "map_of classes cn = Some c \<Longrightarrow>
   mset (class_labels (AList.update cn c' classes)) + mset (class_labels [(cn, c)])
     = mset (class_labels classes) + mset (class_labels [(cn, c')])"
proof (induction classes)
  case Nil
  then show ?case by simp
next
  case (Cons kc classes)
  obtain k d where kc: "kc = (k, d)" by (cases kc)
  show ?case
  proof (cases "k = cn")
    case True
    with Cons.prems kc show ?thesis
      by (simp add: class_labels_Cons class_labels_Nil)
  next
    case False
    with Cons.prems kc have "map_of classes cn = Some c" by simp
    from Cons.IH[OF this] False kc show ?thesis
      by (simp add: class_labels_Cons class_labels_Nil)
  qed
qed

lemma class_ok_update:
  "list_all class_ok classes \<Longrightarrow> class_ok (cn, c') \<Longrightarrow>
   list_all class_ok (AList.update cn c' classes)"
  by (induction classes) auto

lemma class_ok_lookup:
  "list_all class_ok classes \<Longrightarrow> map_of classes cn = Some c \<Longrightarrow> class_ok (cn, c)"
  by (induction classes) (auto split: if_splits)

lemma classname_of_Inr: "classname_of chain = Inr cn \<Longrightarrow> chain \<noteq> []"
  by (cases chain) auto

lemma Testclass_AddTestcase_effect:
  assumes "Testclass_AddTestcase (FromTestcase tc) c = Inr c'"
  shows "name c' = name c"
    and "class_testcases c' =
           class_testcases c @ [(name tc, (FromTestcase tc)\<lparr> parent := Some (name c) \<rparr>)]"
    and "name tc \<notin> fst ` set (class_testcases c)"
  using assms
  by (auto simp: Testclass_AddTestcase_def FromTestcase_def AList_update_absent
      split: if_splits)

lemma flatten_case_effect:
  assumes ok: "classes_ok classes"
    and run: "flatten_case sn item classes = Inr classes'"
  shows "classes_ok classes'"
    and "mset (map (\<lambda>l. (Inr (fst l), snd l)) (class_labels classes')) =
         mset (map (\<lambda>l. (Inr (fst l), snd l)) (class_labels classes))
         + {#(classname_of (fst item), name (snd item))#}"
proof -
  from run obtain cn where cn: "classname_of (fst item) = Inr cn"
    by (auto simp: flatten_case_def split: sum.splits)
  let ?tc = "snd item"
  show "classes_ok classes'"
    and "mset (map (\<lambda>l. (Inr (fst l), snd l)) (class_labels classes')) =
         mset (map (\<lambda>l. (Inr (fst l), snd l)) (class_labels classes))
         + {#(classname_of (fst item), name (snd item))#}"
  proof (atomize (full), cases "map_of classes cn")
    case None
    then have absent: "cn \<notin> fst ` set classes"
      by (simp add: map_of_eq_None_iff)
    from run cn None obtain c' where
      add: "Testclass_AddTestcase (FromTestcase ?tc) (Testclass_init cn (Some sn)) = Inr c'"
      and res: "classes' = AList.update cn c' classes"
      by (auto simp: flatten_case_def Let_def split: sum.splits)
    note eff = Testclass_AddTestcase_effect[OF add]
    have c': "name c' = cn"
      "class_testcases c' = [(name ?tc, (FromTestcase ?tc)\<lparr> parent := Some cn \<rparr>)]"
      using eff by (simp_all add: Testclass_init_def)
    have res': "classes' = classes @ [(cn, c')]"
      using res absent by (simp add: AList_update_absent)
    have "class_ok (cn, c')"
      using c' by (simp add: class_ok_def FromTestcase_def)
    with ok absent have "classes_ok classes'"
      by (auto simp: classes_ok_def res')
    moreover have "class_labels classes' = class_labels classes @ [(cn, name ?tc)]"
      using c' by (simp add: res' class_labels_append class_labels_Cons class_labels_Nil
          FromTestcase_def)
    ultimately show "classes_ok classes' \<and>
         mset (map (\<lambda>l. (Inr (fst l), snd l)) (class_labels classes')) =
         mset (map (\<lambda>l. (Inr (fst l), snd l)) (class_labels classes))
         + {#(classname_of (fst item), name (snd item))#}"
      by (simp add: cn)
  next
    case (Some c)
    from run cn Some obtain c' where
      add: "Testclass_AddTestcase (FromTestcase ?tc) c = Inr c'"
      and res: "classes' = AList.update cn c' classes"
      by (auto simp: flatten_case_def Let_def split: sum.splits)
    note eff = Testclass_AddTestcase_effect[OF add]
    from ok Some have cok: "class_ok (cn, c)"
      by (auto simp: classes_ok_def dest: class_ok_lookup)
    then have "class_ok (cn, c')"
      using eff by (auto simp: class_ok_def FromTestcase_def)
    with ok have "classes_ok classes'"
      by (simp add: classes_ok_def res class_ok_update distinct_update)
    moreover have "class_labels [(cn, c')] = class_labels [(cn, c)] @ [(cn, name ?tc)]"
      using eff cok by (simp add: class_labels_Cons class_labels_Nil class_ok_def
          FromTestcase_def)
    with class_labels_update_Some[OF Some, of c']
    have "mset (class_labels classes') = mset (class_labels classes) + {#(cn, name ?tc)#}"
      by (simp add: res)
    from arg_cong[OF this, of "image_mset (\<lambda>l. (Inr (fst l), snd l))"]
    have "mset (map (\<lambda>l. (Inr (fst l), snd l)) (class_labels classes')) =
         mset (map (\<lambda>l. (Inr (fst l), snd l)) (class_labels classes))
         + {#(classname_of (fst item), name (snd item))#}"
      by (simp add: cn)
    ultimately show "classes_ok classes' \<and>
         mset (map (\<lambda>l. (Inr (fst l), snd l)) (class_labels classes')) =
         mset (map (\<lambda>l. (Inr (fst l), snd l)) (class_labels classes))
         + {#(classname_of (fst item), name (snd item))#}"
      by simp
  qed
qed

lemma class_labels_member:
  "(cn, c) \<in> set classes \<Longrightarrow> kv \<in> set (class_testcases c) \<Longrightarrow>
   (name c, name (snd kv)) \<in> set (class_labels classes)"
  by (force simp: class_labels_def)

lemma flatten_case_succeeds:
  assumes ok: "classes_ok classes"
    and chain: "fst item \<noteq> []"
    and fresh: "(classname_of (fst item), name (snd item))
                  \<notin> set (map (\<lambda>l. (Inr (fst l), snd l)) (class_labels classes))"
  shows "\<exists>classes'. flatten_case sn item classes = Inr classes'"
proof -
  from chain obtain cn where cn: "classname_of (fst item) = Inr cn"
    by (cases "fst item") auto
  show ?thesis
  proof (cases "map_of classes cn")
    case None
    then show ?thesis
      by (simp add: flatten_case_def cn Testclass_AddTestcase_def Testclass_init_def
          FromTestcase_def)
  next
    case (Some c)
    from ok Some have cok: "class_ok (cn, c)"
      by (auto simp: classes_ok_def dest: class_ok_lookup)
    have "name (snd item) \<notin> fst ` set (class_testcases c)"
    proof
      assume "name (snd item) \<in> fst ` set (class_testcases c)"
      then obtain kv where kv: "kv \<in> set (class_testcases c)" "fst kv = name (snd item)"
        by auto
      with cok have "name (snd kv) = name (snd item)"
        by (auto simp: class_ok_def list_all_iff)
      moreover from Some have "(cn, c) \<in> set classes" by (rule map_of_SomeD)
      ultimately have "(cn, name (snd item)) \<in> set (class_labels classes)"
        using class_labels_member[OF _ kv(1)] cok by (auto simp: class_ok_def)
      with fresh cn show False by force
    qed
    then show ?thesis
      by (simp add: flatten_case_def cn Some Testclass_AddTestcase_def FromTestcase_def)
  qed
qed

lemma flatten_cases_effect:
  "classes_ok classes \<Longrightarrow> flatten_cases sn items classes = Inr classes' \<Longrightarrow>
   classes_ok classes'
   \<and> mset (map (\<lambda>l. (Inr (fst l), snd l)) (class_labels classes')) =
       mset (map (\<lambda>l. (Inr (fst l), snd l)) (class_labels classes))
       + mset (map (\<lambda>item. (classname_of (fst item), name (snd item))) items)"
proof (induction items arbitrary: classes)
  case Nil
  then show ?case by simp
next
  case (Cons item items)
  from Cons.prems(2) obtain mid where mid: "flatten_case sn item classes = Inr mid"
    and rest: "flatten_cases sn items mid = Inr classes'"
    by (auto split: sum.splits)
  note step = flatten_case_effect[OF Cons.prems(1) mid]
  from Cons.IH[OF step(1) rest] step(2) show ?case by simp
qed

lemma flatten_cases_succeeds:
  "classes_ok classes \<Longrightarrow> \<forall>item\<in>set items. fst item \<noteq> [] \<Longrightarrow>
   distinct (map (\<lambda>item. (classname_of (fst item), name (snd item))) items) \<Longrightarrow>
   set (map (\<lambda>item. (classname_of (fst item), name (snd item))) items)
     \<inter> set (map (\<lambda>l. (Inr (fst l), snd l)) (class_labels classes)) = {} \<Longrightarrow>
   \<exists>classes'. flatten_cases sn items classes = Inr classes'"
proof (induction items arbitrary: classes)
  case Nil
  then show ?case by simp
next
  case (Cons item items)
  let ?lab = "\<lambda>item. (classname_of (fst item), name (snd item))"
  let ?inr = "\<lambda>l. (Inr (fst l) :: error + string, snd l)"
  from Cons.prems have "\<exists>mid. flatten_case sn item classes = Inr mid"
    by (intro flatten_case_succeeds) auto
  then obtain mid where mid: "flatten_case sn item classes = Inr mid" ..
  note step = flatten_case_effect[OF Cons.prems(1) mid]
  from step(2) have "set_mset (mset (map ?inr (class_labels mid))) =
      set_mset (mset (map ?inr (class_labels classes)) + {#?lab item#})"
    by simp
  then have "set (map ?inr (class_labels mid)) = insert (?lab item) (set (map ?inr (class_labels classes)))"
    by simp
  with Cons.prems have "set (map ?lab items) \<inter> set (map ?inr (class_labels mid)) = {}"
    by auto
  with Cons.IH[OF step(1), of] Cons.prems obtain classes' where
    "flatten_cases sn items mid = Inr classes'"
    by auto
  with mid show ?case by simp
qed

lemma IterateTestcases_chains:
  "\<forall>item\<in>set (IterateTestcases outer s). fst item \<noteq> []"
  "outer \<noteq> [] \<Longrightarrow> \<forall>item\<in>set (IterateTestcases_list outer ss). fst item \<noteq> []"
  by (induction outer s and outer ss rule: IterateTestcases_IterateTestcases_list.induct) auto

subsection \<open>Unflattening\<close>

lemma below_ok_iff:
  "below_ok s \<longleftrightarrow>
     kind_value (kind s) > kind_value Logical
     \<and> list_all (\<lambda>kv. name (snd kv) = fst kv) (ut_testcases s)
     \<and> children_ok (ut_testsuites s)"
  by (cases s) simp

lemma entries_unfold:
  "entries s =
     map (\<lambda>kv. ([name (header s)], name (snd kv))) (ut_testcases s)
     @ map (\<lambda>e. (name (header s) # fst e, snd e)) (entries_list (ut_testsuites s))"
  by (cases s) simp

lemma entries_paths:
  "\<forall>e\<in>set (entries s). fst e \<noteq> []"
  "\<forall>e\<in>set (entries_list ss). fst e \<noteq> []"
  by (induction s and ss rule: entries_entries_list.induct) auto

lemma entries_list_member:
  "(k, c) \<in> set ss \<Longrightarrow> set (entries c) \<subseteq> set (entries_list ss)"
  by (induction ss) auto

lemma entries_list_update_Some:
  "map_of ss e = Some c \<Longrightarrow>
   mset (entries_list (AList.update e c' ss)) + mset (entries c)
     = mset (entries_list ss) + mset (entries c')"
  by (induction ss) (auto split: if_splits)

lemma entries_list_update_None:
  "map_of ss e = None \<Longrightarrow> entries_list (AList.update e c' ss) = entries_list ss @ entries c'"
  by (induction ss) (auto split: if_splits)

lemma children_ok_update:
  "children_ok ss \<Longrightarrow> below_ok c' \<Longrightarrow> name (header c') = e \<Longrightarrow>
   children_ok (AList.update e c' ss)"
  by (induction ss) auto

lemma children_ok_lookup:
  "children_ok ss \<Longrightarrow> map_of ss e = Some c \<Longrightarrow> below_ok c \<and> name (header c) = e"
  by (induction ss) (auto split: if_splits)

lemma climb_above_Logical:
  "kind_value k > kind_value Logical \<Longrightarrow> climb cn ((n, k) # outer) = climb (n @ ''.'' @ cn) outer"
  by simp

lemma classnames_below:
  "below_ok s \<Longrightarrow>
   map (\<lambda>item. (classname_of (fst item), name (snd item))) (IterateTestcases outer s)
     = map (\<lambda>e. (Inr (climb (join_dot (fst e)) outer), snd e)) (entries s)"
  "children_ok ss \<Longrightarrow>
   map (\<lambda>item. (classname_of (fst item), name (snd item))) (IterateTestcases_list outer ss)
     = map (\<lambda>e. (Inr (climb (join_dot (fst e)) outer), snd e)) (entries_list ss)"
proof (induction outer s and outer ss rule: IterateTestcases_IterateTestcases_list.induct)
  case (1 outer h k cases suites)
  from "1.prems" have k: "kind_value k > kind_value Logical" and ch: "children_ok suites"
    by simp_all
  have "map (\<lambda>e. (Inr (climb (join_dot (fst e)) ((name h, k) # outer)) :: error + string, snd e))
          (entries_list suites)
        = map (\<lambda>e. (Inr (climb (join_dot (name h # fst e)) outer), snd e)) (entries_list suites)"
  proof (rule map_cong[OF refl])
    fix e assume "e \<in> set (entries_list suites)"
    with entries_paths(2)[of suites] have "fst e \<noteq> []" by blast
    then show "(Inr (climb (join_dot (fst e)) ((name h, k) # outer)) :: error + string, snd e)
               = (Inr (climb (join_dot (name h # fst e)) outer), snd e)"
      using k by (simp add: join_dot_Cons)
  qed
  with "1.IH"[OF ch] show ?case
    by (simp add: comp_def)
next
  case (2 outer)
  then show ?case by simp
next
  case (3 outer key suite rest)
  then show ?case by simp
qed

lemma classnames_root:
  assumes "kind root = Logical" "ut_testcases root = []" "children_ok (ut_testsuites root)"
  shows "map (\<lambda>item. (classname_of (fst item), name (snd item))) (IterateTestcases outer root)
         = map (\<lambda>e. (Inr (join_dot (tl (fst e))), snd e)) (entries root)"
proof -
  obtain h k cs ss where root: "root = ut_Testsuite h k cs ss" by (cases root)
  with assms have k: "k = Logical" and cs: "cs = []" and ch: "children_ok ss" by simp_all
  from classnames_below(2)[OF ch, of "(name h, k) # outer"] show ?thesis
    by (simp add: root k cs comp_def)
qed

lemma descend_testcases:
  "descend is_root (e # rest) tcs s = Inr s' \<Longrightarrow> ut_testcases s' = ut_testcases s"
  by (auto simp: Let_def split: sum.splits)

lemma below_ok_new: "below_ok (ut_Testsuite_init e Package a b c d)"
  by (simp add: ut_Testsuite_init_def)

lemma descend_effect:
  "children_ok (ut_testsuites s) \<Longrightarrow> list_all (\<lambda>kv. name (snd kv) = fst kv) (ut_testcases s) \<Longrightarrow>
   descend is_root classpath tcs s = Inr s' \<Longrightarrow>
   children_ok (ut_testsuites s')
   \<and> list_all (\<lambda>kv. name (snd kv) = fst kv) (ut_testcases s')
   \<and> (kind_value (kind s) > kind_value Logical \<longrightarrow> kind_value (kind s') > kind_value Logical)
   \<and> mset (entries s') =
       mset (entries s) + mset (map (\<lambda>tc. (name (header s) # classpath, name tc)) tcs)"
proof (induction classpath arbitrary: is_root s s')
  case Nil
  let ?s = "ut_Testsuite (header s) Class (ut_testcases s) (ut_testsuites s)"
  from Nil.prems(3) have "ut_AddTestcases tcs ?s = Inr s'" by simp
  note fr = ut_AddTestcases_frame[OF this]
  from fr Nil.prems(1,2) show ?case
    by (auto simp: entries_unfold[of s'] entries_unfold[of s] comp_def list_all_iff)
next
  case (Cons e rest)
  let ?new = "ut_Testsuite_init e Package None None Ts_Unknown (Some (name (header s)))"
  let ?child = "case map_of (ut_testsuites s) e of Some suite \<Rightarrow> suite | None \<Rightarrow> ?new"
  from Cons.prems(3) obtain child' where child': "descend False rest tcs ?child = Inr child'"
    and s': "s' = ut_Testsuite (header s) (if rest = [] \<and> \<not> is_root then Module else kind s)
                    (ut_testcases s) (AList.update e child' (ut_testsuites s))"
    by (auto simp: Let_def split: sum.splits)
  have child_ok: "below_ok ?child" and child_name: "name (header ?child) = e"
    using children_ok_lookup[OF Cons.prems(1)]
    by (auto simp: below_ok_new ut_Testsuite_init_def split: option.splits)
  from child_ok have pre: "children_ok (ut_testsuites ?child)"
    "list_all (\<lambda>kv. name (snd kv) = fst kv) (ut_testcases ?child)"
    "kind_value (kind ?child) > kind_value Logical"
    by (simp_all only: below_ok_iff)
  from Cons.IH[OF pre(1,2) child'] pre(3)
  have ok': "below_ok child'"
    and ent: "mset (entries child') =
              mset (entries ?child) + mset (map (\<lambda>tc. (e # rest, name tc)) tcs)"
    by (simp_all add: below_ok_iff child_name)
  have name': "name (header child') = e"
    using descend_header[OF child'] child_name by simp
  have ch': "children_ok (ut_testsuites s')"
    using children_ok_update[OF Cons.prems(1) ok' name'] by (simp add: s')
  have kinds: "kind_value (kind s) > kind_value Logical
      \<longrightarrow> kind_value (kind s') > kind_value Logical"
    by (simp add: s')
  have "mset (entries_list (AList.update e child' (ut_testsuites s)))
        = mset (entries_list (ut_testsuites s)) + mset (map (\<lambda>tc. (e # rest, name tc)) tcs)"
  proof (cases "map_of (ut_testsuites s) e")
    case None
    with ent have "mset (entries child') = mset (map (\<lambda>tc. (e # rest, name tc)) tcs)"
      by (simp add: ut_Testsuite_init_def)
    with entries_list_update_None[OF None, of child'] show ?thesis
      by simp
  next
    case (Some c)
    with ent have "mset (entries child') = mset (entries c) + mset (map (\<lambda>tc. (e # rest, name tc)) tcs)"
      by simp
    with entries_list_update_Some[OF Some, of child'] show ?thesis
      by simp
  qed
  from arg_cong[OF this, of "image_mset (\<lambda>e. (name (header s) # fst e, snd e))"]
  have "mset (entries s') =
       mset (entries s) + mset (map (\<lambda>tc. (name (header s) # e # rest, name tc)) tcs)"
    by (simp add: entries_unfold[of s'] entries_unfold[of s] s' multiset.map_comp comp_def)
  with ch' kinds Cons.prems(2) show ?case
    by (simp add: s')
qed

lemma ut_AddTestcases_succeeds:
  "\<forall>tc\<in>set tcs. parent tc = None \<Longrightarrow> distinct (map name tcs) \<Longrightarrow>
   set (map name tcs) \<inter> fst ` set (ut_testcases s) = {} \<Longrightarrow>
   \<exists>s'. ut_AddTestcases tcs s = Inr s'"
proof (induction tcs arbitrary: s)
  case Nil
  then show ?case by simp
next
  case (Cons tc tcs)
  from Cons.prems obtain mid where mid: "ut_AddTestcase tc s = Inr mid"
    by (auto simp: ut_AddTestcase_def)
  from ut_AddTestcase_frame[OF mid] Cons.prems
  have "set (map name tcs) \<inter> fst ` set (ut_testcases mid) = {}"
    by auto
  with Cons.IH[of mid] Cons.prems obtain s' where "ut_AddTestcases tcs mid = Inr s'"
    by auto
  with mid show ?case by simp
qed

lemma descend_succeeds:
  "\<forall>tc\<in>set tcs. parent tc = None \<Longrightarrow> distinct (map name tcs) \<Longrightarrow>
   (\<And>n. suite_at classpath s = Some n \<Longrightarrow>
      set (map name tcs) \<inter> fst ` set (ut_testcases n) = {}) \<Longrightarrow>
   \<exists>s'. descend is_root classpath tcs s = Inr s'"
proof (induction classpath arbitrary: is_root s)
  case Nil
  from Nil.prems(3)[of s] have "set (map name tcs) \<inter> fst ` set (ut_testcases s) = {}"
    by simp
  with ut_AddTestcases_succeeds[OF Nil.prems(1,2),
      of "ut_Testsuite (header s) Class (ut_testcases s) (ut_testsuites s)"]
  show ?case by simp
next
  case (Cons e rest)
  let ?new = "ut_Testsuite_init e Package None None Ts_Unknown (Some (name (header s)))"
  let ?child = "case map_of (ut_testsuites s) e of Some suite \<Rightarrow> suite | None \<Rightarrow> ?new"
  have "\<exists>child'. descend False rest tcs ?child = Inr child'"
  proof (rule Cons.IH[OF Cons.prems(1,2)])
    fix n assume at: "suite_at rest ?child = Some n"
    show "set (map name tcs) \<inter> fst ` set (ut_testcases n) = {}"
    proof (cases "map_of (ut_testsuites s) e")
      case None
      with at have "n = ?new"
        by (cases rest) (auto simp: ut_Testsuite_init_def)
      then show ?thesis by (simp add: ut_Testsuite_init_def)
    next
      case (Some c)
      with at have "suite_at (e # rest) s = Some n" by simp
      then show ?thesis by (rule Cons.prems(3))
    qed
  qed
  then show ?case
    by (auto simp: Let_def)
qed

lemma suite_at_entries:
  "children_ok (ut_testsuites s) \<Longrightarrow> list_all (\<lambda>kv. name (snd kv) = fst kv) (ut_testcases s) \<Longrightarrow>
   suite_at rest s = Some n \<Longrightarrow> k \<in> fst ` set (ut_testcases n) \<Longrightarrow>
   (name (header s) # rest, k) \<in> set (entries s)"
proof (induction rest arbitrary: s)
  case Nil
  then have "n = s" by simp
  with Nil.prems(2,4) show ?case
    by (force simp: entries_unfold[of s] list_all_iff)
next
  case (Cons e rest)
  from Cons.prems(3) obtain c where c: "map_of (ut_testsuites s) e = Some c"
    and at: "suite_at rest c = Some n"
    by (auto split: option.splits)
  from children_ok_lookup[OF Cons.prems(1) c] have ok: "below_ok c" and nm: "name (header c) = e"
    by simp_all
  from ok Cons.IH[OF _ _ at Cons.prems(4)] nm have "(e # rest, k) \<in> set (entries c)"
    by (simp add: below_ok_iff)
  moreover from c have "(e, c) \<in> set (ut_testsuites s)" by (rule map_of_SomeD)
  ultimately have "(e # rest, k) \<in> set (entries_list (ut_testsuites s))"
    using entries_list_member by blast
  then show ?case
    by (force simp: entries_unfold[of s])
qed

lemma unflatten_classes_effect:
  assumes "classes_ok classes" "children_ok (ut_testsuites root)" "ut_testcases root = []"
    and "\<And>e kc. e \<in> set (entries root) \<Longrightarrow> kc \<in> set classes \<Longrightarrow>
           fst e \<noteq> name (header root) # split_dot (name (snd kc))"
  shows "\<exists>root'. unflatten_classes classes root = Inr root'
           \<and> children_ok (ut_testsuites root') \<and> ut_testcases root' = []
           \<and> mset (entries root') =
               mset (entries root)
               + mset (map (\<lambda>l. (name (header root) # split_dot (fst l), snd l))
                         (class_labels classes))"
  using assms
proof (induction classes arbitrary: root)
  case Nil
  then show ?case by (simp add: class_labels_Nil)
next
  case (Cons kc classes)
  obtain key c where kc: "kc = (key, c)" by (cases kc)
  let ?tcs = "map (\<lambda>kv. ToTestcase (snd kv)) (class_testcases c)"
  let ?p = "split_dot (name c)"
  from Cons.prems(1) have cok: "class_ok (key, c)" and rest_ok: "classes_ok classes"
    and key_new: "key \<notin> fst ` set classes"
    by (auto simp: classes_ok_def kc)
  have names: "map name ?tcs = map fst (class_testcases c)"
    using cok by (auto simp: class_ok_def ToTestcase_def list_all_iff)
  have "\<exists>mid. descend True ?p ?tcs root = Inr mid"
  proof (rule descend_succeeds)
    show "\<forall>tc\<in>set ?tcs. parent tc = None"
      by (auto simp: ToTestcase_def)
    show "distinct (map name ?tcs)"
      using cok by (simp only: names) (simp add: class_ok_def)
    fix n assume at: "suite_at ?p root = Some n"
    show "set (map name ?tcs) \<inter> fst ` set (ut_testcases n) = {}"
    proof (rule ccontr)
      assume "set (map name ?tcs) \<inter> fst ` set (ut_testcases n) \<noteq> {}"
      then obtain k where k: "k \<in> fst ` set (ut_testcases n)" by auto
      from suite_at_entries[OF Cons.prems(2) _ at k] Cons.prems(3)
      have "(name (header root) # ?p, k) \<in> set (entries root)" by simp
      from Cons.prems(4)[OF this, of kc] show False by (simp add: kc)
    qed
  qed
  then obtain mid where mid: "descend True ?p ?tcs root = Inr mid" ..
  obtain e rest where p: "?p = e # rest"
    using split_dot_nonempty[of "name c"] by (cases ?p) auto
  from descend_effect[OF Cons.prems(2) _ mid] Cons.prems(3)
  have mid_ch: "children_ok (ut_testsuites mid)"
    and mid_ent: "mset (entries mid) =
        mset (entries root) + mset (map (\<lambda>tc. (name (header root) # ?p, name tc)) ?tcs)"
    by simp_all
  have mid_cases: "ut_testcases mid = []"
    using descend_testcases[OF mid[unfolded p]] Cons.prems(3) by simp
  have mid_header: "header mid = header root"
    using mid by (rule descend_header)
  have fresh: "fst e \<noteq> name (header mid) # split_dot (name (snd kc'))"
    if e: "e \<in> set (entries mid)" and kc': "kc' \<in> set classes" for e kc'
  proof -
    from e mid_ent have "e \<in># mset (entries root)
        + mset (map (\<lambda>tc. (name (header root) # ?p, name tc)) ?tcs)"
      by (metis set_mset_mset)
    then consider "e \<in> set (entries root)" | "fst e = name (header root) # ?p"
      by auto
    then show ?thesis
    proof cases
      case 1
      from Cons.prems(4)[OF 1, of kc'] kc' show ?thesis by (simp add: mid_header)
    next
      case 2
      from rest_ok kc' have "name (snd kc') = fst kc'"
        by (auto simp: classes_ok_def class_ok_def list_all_iff)
      moreover from cok have "name c = key" by (simp add: class_ok_def)
      moreover from kc' key_new have "fst kc' \<noteq> key" by force
      ultimately have "name (snd kc') \<noteq> name c" by simp
      then have "split_dot (name (snd kc')) \<noteq> ?p"
        using split_dot_inj by blast
      with 2 show ?thesis by (simp add: mid_header)
    qed
  qed
  from Cons.IH[OF rest_ok mid_ch mid_cases fresh] obtain root' where
    run: "unflatten_classes classes mid = Inr root'"
    and ch: "children_ok (ut_testsuites root')" and cs: "ut_testcases root' = []"
    and ent: "mset (entries root') =
        mset (entries mid)
        + mset (map (\<lambda>l. (name (header mid) # split_dot (fst l), snd l)) (class_labels classes))"
    by blast
  from ent mid_ent have "mset (entries root') =
      mset (entries root)
      + mset (map (\<lambda>l. (name (header root) # split_dot (fst l), snd l))
                (class_labels (kc # classes)))"
    by (simp add: class_labels_Cons kc mid_header comp_def ToTestcase_def)
  with run mid ch cs show ?case
    by (simp add: kc)
qed

section \<open>The classname round trip\<close>

text \<open>
  C6, amended. For every canonical tree in which no two cases get the same dotted
  classname and the same name, whatever the kinds of its suites, \<open>FromTestsuite\<close>
  returns, \<open>ToTestsuite\<close> returns on its result, and flattening the tree that comes
  back gives every case the dotted classname it had, no case lost and none duplicated:
  the classname and case name pairs are the same multiset. In particular the cases under
  \<open>pkg.Mod.ClassA\<close> and \<open>pkg.Mod.ClassB\<close> come back under these two classnames.
\<close>

theorem C6_classname_round_trip:
  "(distinct (classnames outer testsuite) \<longrightarrow>
      (\<exists>flattened. FromTestsuite outer testsuite = Inr flattened))
   \<and> (FromTestsuite outer testsuite = Inr juTestsuite \<longrightarrow>
      (\<exists>result. ToTestsuite juTestsuite = Inr result
         \<and> mset (classnames outer' result) = mset (classnames outer testsuite)))"
proof (intro conjI impI)
  assume "distinct (classnames outer testsuite)"
  then have "\<exists>classes. flatten_cases (name (header testsuite))
                (IterateTestcases outer testsuite) [] = Inr classes"
    using IterateTestcases_chains(1)[of outer testsuite]
    by (intro flatten_cases_succeeds)
      (simp_all add: classnames_def classes_ok_def class_labels_Nil)
  then show "\<exists>flattened. FromTestsuite outer testsuite = Inr flattened"
    by (auto simp: FromTestsuite_def)
next
  assume run: "FromTestsuite outer testsuite = Inr juTestsuite"
  let ?classes = "testclasses juTestsuite"
  let ?root = "ut_Testsuite_init (name juTestsuite) Logical (startTime juTestsuite)
                 (duration juTestsuite) (suite_status juTestsuite) None"
  from run have flat: "flatten_cases (name (header testsuite))
      (IterateTestcases outer testsuite) [] = Inr ?classes"
    by (auto simp: FromTestsuite_def split: sum.splits)
  have "classes_ok []" by (simp add: classes_ok_def)
  from flatten_cases_effect[OF this flat]
  have ok: "classes_ok ?classes"
    and labels: "mset (map (\<lambda>l. (Inr (fst l), snd l)) (class_labels ?classes))
                 = mset (classnames outer testsuite)"
    by (simp_all add: class_labels_Nil classnames_def)
  have root: "children_ok (ut_testsuites ?root)" "ut_testcases ?root = []" "entries ?root = []"
    by (simp_all add: ut_Testsuite_init_def)
  from unflatten_classes_effect[OF ok root(1,2)] root(3) obtain result where
    to: "unflatten_classes ?classes ?root = Inr result"
    and ch: "children_ok (ut_testsuites result)" and cs: "ut_testcases result = []"
    and ent: "mset (entries result) =
        mset (map (\<lambda>l. (name (header ?root) # split_dot (fst l), snd l)) (class_labels ?classes))"
    by auto
  from to have res: "ToTestsuite juTestsuite = Inr result"
    by (simp add: ToTestsuite_def)
  then have "kind result = Logical" by (rule ToTestsuite_kind)
  from classnames_root[OF this cs ch, of outer']
  have "mset (classnames outer' result)
        = image_mset (\<lambda>e. (Inr (join_dot (tl (fst e))), snd e)) (mset (entries result))"
    by (simp add: classnames_def)
  also have "\<dots> = mset (map (\<lambda>l. (Inr (fst l), snd l)) (class_labels ?classes))"
    by (simp add: ent multiset.map_comp comp_def join_split_dot)
  finally have "mset (classnames outer' result) = mset (classnames outer testsuite)"
    using labels by simp
  with res show "\<exists>result. ToTestsuite juTestsuite = Inr result
         \<and> mset (classnames outer' result) = mset (classnames outer testsuite)"
    by blast
qed

theorem C6_classname_round_trip_witness:
  "classnames [] tree_pkg = [(Inr ''pkg.Mod.ClassA'', ''t1''), (Inr ''pkg.Mod.ClassB'', ''t2'')]
   \<and> FromTestsuite [] tree_pkg = Inr ju_pkg
   \<and> map_sum id (mset \<circ> classnames []) (ToTestsuite ju_pkg)
       = Inr {#(Inr ''pkg.Mod.ClassA'', ''t1''), (Inr ''pkg.Mod.ClassB'', ''t2'')#}"
proof -
  have labels: "classnames [] tree_pkg
      = [(Inr ''pkg.Mod.ClassA'', ''t1''), (Inr ''pkg.Mod.ClassB'', ''t2'')]"
    by (simp add: classnames_def tree_pkg_def ut_suite_def ut_case_def)
  have flat: "FromTestsuite [] tree_pkg = Inr ju_pkg"
    by (simp add: FromTestsuite_def flatten_case_def Testclass_AddTestcase_def Testclass_init_def
        FromTestcase_def tree_pkg_def ju_pkg_def ut_suite_def ut_case_def mk_ju_suite_def
        mk_class_def Let_def)
  from C6_classname_round_trip[of "[]" tree_pkg ju_pkg "[]"] flat obtain result where
    "ToTestsuite ju_pkg = Inr result"
    "mset (classnames [] result) = mset (classnames [] tree_pkg)"
    by blast
  with labels flat show ?thesis by simp
qed

text \<open>
  C6 as stated fails where two cases get the same classname and name: in \<open>tree_dup\<close>
  every suite below \<open>T\<close> is above the Logical boundary, both cases \<open>c\<close> get the
  classname \<open>a.b\<close>, and \<open>FromTestsuite\<close> raises \<open>DuplicateTestcaseException\<close>, so
  nothing is reconstructed.
\<close>

theorem C6_shared_classname_counterexample:
  "classnames [] tree_dup = [(Inr ''a.b'', ''c''), (Inr ''a.b'', ''c'')]
   \<and> FromTestsuite [] tree_dup = Inl DuplicateTestcaseException"
  by (simp add: classnames_def FromTestsuite_def flatten_case_def Testclass_AddTestcase_def
      Testclass_init_def FromTestcase_def tree_dup_def ut_suite_def ut_case_def Let_def)

end
